theory Spec2Isabelle
  imports Main "HOL-Library.Sublist" "HOL-Library.AList"
begin

section \<open>Python strings\<close>

text \<open>
  Strings are lists of 8-bit characters. The string methods of the script
  (\<^verbatim>\<open>lower\<close>, \<^verbatim>\<open>split\<close>, \<^verbatim>\<open>join\<close>, \<^verbatim>\<open>strip\<close>, \<^verbatim>\<open>replace\<close>) are
  given on ASCII: \<^verbatim>\<open>lower\<close> maps \<^verbatim>\<open>A\<close>..\<^verbatim>\<open>Z\<close> to \<^verbatim>\<open>a\<close>..\<^verbatim>\<open>z\<close> and leaves every
  other character alone.
\<close>

definition is_upper :: "char \<Rightarrow> bool" where
  "is_upper c = (let n = (of_char c :: nat) in 65 \<le> n \<and> n \<le> 90)"

definition lower_char :: "char \<Rightarrow> char" where
  "lower_char c =
     (if is_upper c
      then Char (digit0 c) (digit1 c) (digit2 c) (digit3 c) (digit4 c) True (digit6 c) (digit7 c)
      else c)"

definition py_lower :: "string \<Rightarrow> string" where
  "py_lower s = map lower_char s"

text \<open>\<^verbatim>\<open>s.split(sep)\<close> for a one-character separator: never empty, one more
  segment than there are separators.\<close>

fun py_split :: "char \<Rightarrow> string \<Rightarrow> string list" where
  "py_split sep [] = [[]]"
| "py_split sep (c # cs) =
     (if c = sep then [] # py_split sep cs
      else (case py_split sep cs of
              [] \<Rightarrow> [[c]]
            | p # ps \<Rightarrow> (c # p) # ps))"

text \<open>\<^verbatim>\<open>sep.join(parts)\<close>.\<close>

fun py_join :: "string \<Rightarrow> string list \<Rightarrow> string" where
  "py_join sep [] = []"
| "py_join sep [p] = p"
| "py_join sep (p # q # ps) = p @ sep @ py_join sep (q # ps)"

text \<open>\<^verbatim>\<open>s.strip()\<close> removes leading and trailing ASCII whitespace;
  \<^verbatim>\<open>s.strip("/")\<close> removes leading and trailing occurrences of the character.\<close>

definition is_space :: "char \<Rightarrow> bool" where
  "is_space c = (let n = (of_char c :: nat) in (9 \<le> n \<and> n \<le> 13) \<or> (28 \<le> n \<and> n \<le> 32))"

definition strip_where :: "(char \<Rightarrow> bool) \<Rightarrow> string \<Rightarrow> string" where
  "strip_where P s = rev (dropWhile P (rev (dropWhile P s)))"

definition py_strip :: "string \<Rightarrow> string" where
  "py_strip s = strip_where is_space s"

definition py_strip_char :: "char \<Rightarrow> string \<Rightarrow> string" where
  "py_strip_char ch s = strip_where (\<lambda>c. c = ch) s"

text \<open>\<^verbatim>\<open>s.replace(a, new)\<close> for a one-character \<^verbatim>\<open>a\<close>.\<close>

definition py_replace :: "char \<Rightarrow> string \<Rightarrow> string \<Rightarrow> string" where
  "py_replace a new s = concat (map (\<lambda>c. if c = a then new else [c]) s)"

section \<open>The spreadsheet\<close>

text \<open>
  A cell of the loaded table is a text or, for an empty spreadsheet cell, the
  float NaN that \<^verbatim>\<open>read_excel\<close> puts there. \<^verbatim>\<open>str\<close> of NaN is \<^verbatim>\<open>nan\<close>;
  NaN has no string methods and compares unequal to everything.
\<close>

datatype cell = Text string | Blank

fun py_str :: "cell \<Rightarrow> string" where
  "py_str (Text s) = s"
| "py_str Blank = ''nan''"

record row =
  type_col :: cell
  original_name :: cell
  proposed_new_name :: cell
  full_path :: cell
  created_date :: cell
  timestamp_col :: cell
  action_col :: cell

type_synonym table = "row list"

section \<open>Flagged rows\<close>

definition placeholders :: "string list" where
  "placeholders = [''Brand'', ''Campaign'', ''Channel'', ''Asset'', ''Format'', ''Version'', ''Date'']"

text \<open>The lambda of \<^verbatim>\<open>invalid_mask\<close>: \<^verbatim>\<open>any(ph.lower() == part.lower()
  for ph in placeholders for part in str(s).split("_"))\<close>.\<close>

definition invalid_mask :: "string \<Rightarrow> bool" where
  "invalid_mask s =
     list_ex (\<lambda>ph. list_ex (\<lambda>part. py_lower ph = py_lower part) (py_split CHR ''_'' s)) placeholders"

text \<open>\<^verbatim>\<open>df[invalid_mask].reset_index(drop=True)\<close>, the mask taken over
  \<^verbatim>\<open>df["Proposed New Name"].astype(str)\<close>.\<close>

definition invalid_rows :: "table \<Rightarrow> table" where
  "invalid_rows df = filter (\<lambda>r. invalid_mask (py_str (proposed_new_name r))) df"

section \<open>Exceptions, services and state\<close>

text \<open>The exceptions that the calls of the script can raise.\<close>

datatype exn = NameError | AttributeError | TypeError | IndexError | HttpError | OSError | ValueError

fun exn_name :: "exn \<Rightarrow> string" where
  "exn_name NameError = ''NameError''"
| "exn_name AttributeError = ''AttributeError''"
| "exn_name TypeError = ''TypeError''"
| "exn_name IndexError = ''IndexError''"
| "exn_name HttpError = ''HttpError''"
| "exn_name OSError = ''OSError''"
| "exn_name ValueError = ''ValueError''"

text \<open>An item of a Drive \<^verbatim>\<open>files().list\<close> answer (fields \<^verbatim>\<open>id, name, mimeType,
  webViewLink\<close>; the link is absent for some files) and the answer of
  \<^verbatim>\<open>files().get\<close>, which the script reads with \<^verbatim>\<open>.get\<close>.\<close>

record file_meta =
  fm_id :: string
  fm_name :: string
  fm_mime :: string
  fm_link :: "string option"

record file_info =
  fi_mime :: "string option"
  fi_name :: "string option"
  fi_link :: "string option"

text \<open>Requests that leave the process: Drive queries, the Supabase table of
  session records and the Supabase storage bucket.\<close>

datatype request =
    FilesList string
  | FilesGet string
  | NextChunk string
  | StateSelect
  | StateUpdate
  | StateInsert
  | StorageRemove string string
  | StorageUpload string string

text \<open>
  What lies outside the script: each answer may depend on all requests made so
  far, and each call may fail. \<open>media_chunks\<close> is the finite sequence of
  outcomes of \<^verbatim>\<open>next_chunk()\<close> for a download (\<open>Inr True\<close> is \<^verbatim>\<open>done\<close>);
  \<open>make_temp\<close> is \<^verbatim>\<open>tempfile.NamedTemporaryFile\<close>, \<open>excel_write\<close> the local
  write of \<^verbatim>\<open>to_excel\<close>, \<open>auth\<close> the construction of the Drive client, and
  \<open>delay\<close> the seconds a request takes.
\<close>

record env =
  files_list :: "request list \<Rightarrow> string \<Rightarrow> exn + file_meta list"
  files_get :: "request list \<Rightarrow> string \<Rightarrow> exn + file_info"
  media_chunks :: "request list \<Rightarrow> string \<Rightarrow> (exn + bool) list"
  make_temp :: "request list \<Rightarrow> string \<Rightarrow> exn + string"
  state_select :: "request list \<Rightarrow> exn + bool"
  state_write :: "request list \<Rightarrow> exn + unit"
  storage_remove :: "request list \<Rightarrow> string \<Rightarrow> string \<Rightarrow> exn + unit"
  storage_upload :: "request list \<Rightarrow> string \<Rightarrow> string \<Rightarrow> exn + unit"
  excel_write :: "request list \<Rightarrow> string \<Rightarrow> exn + unit"
  auth :: "(string \<times> string) list \<Rightarrow> exn + unit"
  delay :: "request list \<Rightarrow> nat"

text \<open>Messages shown to the operator (\<^verbatim>\<open>st.error\<close>, \<^verbatim>\<open>st.warning\<close>,
  \<^verbatim>\<open>st.info\<close>, \<^verbatim>\<open>st.success\<close>); the pictographs of the texts are left out.\<close>

datatype message = Error string | Warning string | Info string | Success string

text \<open>The tuple \<^verbatim>\<open>(file_meta, tmp_path, mime, actual_name, web_view_link)\<close>.\<close>

type_synonym resolution =
  "file_meta option \<times> string option \<times> string option \<times> string option \<times> string option"

text \<open>
  The process outside \<^verbatim>\<open>st.session_state\<close>: the clock in seconds, the
  requests made, the calls of \<^verbatim>\<open>find_folder_id\<close> by (name, parent), the two
  stores of \<^verbatim>\<open>@st.cache_data(ttl=3600)\<close> (value and time of storing, by the
  arguments without the underscore-prefixed one), the spreadsheets on the
  local disk and the messages shown.
\<close>

record world =
  now :: nat
  requests :: "request list"
  lookups :: "(string \<times> string option) list"
  folder_memo :: "string \<times> string option \<rightharpoonup> nat \<times> string option"
  file_memo :: "string \<times> cell \<rightharpoonup> nat \<times> file_meta option"
  disk :: "string \<rightharpoonup> table"
  messages :: "message list"

text \<open>\<^verbatim>\<open>st.session_state\<close>. The dictionary \<^verbatim>\<open>pending_changes\<close> keeps
  insertion order; \<^verbatim>\<open>file_cache\<close> is keyed by a string.\<close>

record session =
  pending_changes :: "(cell \<times> string) list"
  index :: int
  drive_service :: "unit option"
  file_cache :: "string \<rightharpoonup> resolution"
  df :: "table option"
  invalid_rows_state :: "table option"
  last_saved_file :: "string option"

text \<open>A computation that may raise and that changes the world.\<close>

type_synonym 'a io = "world \<Rightarrow> (exn + 'a) \<times> world"

definition returnE :: "'a \<Rightarrow> 'a io" where
  "returnE x = (\<lambda>w. (Inr x, w))"

definition raiseE :: "exn \<Rightarrow> 'a io" where
  "raiseE e = (\<lambda>w. (Inl e, w))"

definition bindE :: "'a io \<Rightarrow> ('a \<Rightarrow> 'b io) \<Rightarrow> 'b io" where
  "bindE m f = (\<lambda>w. case m w of (Inl e, w') \<Rightarrow> (Inl e, w') | (Inr x, w') \<Rightarrow> f x w')"

text \<open>\<^verbatim>\<open>try: m except Exception: h\<close>.\<close>

definition try_except :: "'a io \<Rightarrow> (exn \<Rightarrow> 'a io) \<Rightarrow> 'a io" where
  "try_except m h = (\<lambda>w. case m w of (Inl e, w') \<Rightarrow> h e w' | (Inr x, w') \<Rightarrow> (Inr x, w'))"

text \<open>A request: the answer is the service's, the request is recorded and
  the clock moves on.\<close>

definition remote :: "env \<Rightarrow> request \<Rightarrow> (request list \<Rightarrow> exn + 'a) \<Rightarrow> 'a io" where
  "remote ev rq answer =
     (\<lambda>w. (answer (requests w),
            w\<lparr>requests := requests w @ [rq], now := now w + delay ev (requests w)\<rparr>))"

definition say :: "message \<Rightarrow> unit io" where
  "say m = (\<lambda>w. (Inr (), w\<lparr>messages := messages w @ [m]\<rparr>))"

text \<open>Truth value of \<^verbatim>\<open>None\<close> or a string.\<close>

fun truthy :: "string option \<Rightarrow> bool" where
  "truthy None = False"
| "truthy (Some s) = (s \<noteq> [])"

function dec :: "nat \<Rightarrow> string" where
  "dec n = (if n < 10 then [char_of (48 + n)] else dec (n div 10) @ [char_of (48 + n mod 10)])"
  by pat_completeness auto
termination
  by (relation "measure id") auto

datatype button =
  NoButton | Previous | Next | SaveChange | Reset | SaveBatch | SaveAll | Upload | ClearAll

text \<open>What a run of the script reads: the credentials of the secrets, the
  uploaded spreadsheet as \<^verbatim>\<open>read_excel\<close> gives it (its columns and rows, or
  an exception), the button that caused the run and what is typed into the form.\<close>

record inputs =
  credentials_file :: "(string \<times> string) list"
  excel_file :: "(exn + string list \<times> table) option"
  clicked :: button
  typed_text :: "nat \<Rightarrow> string option"

section \<open>Persisting the session\<close>

text \<open>\<^verbatim>\<open>save_state_to_supabase\<close>: select the record of the user, update or
  insert it; any failure is printed and swallowed.\<close>

definition save_state_to_supabase :: "env \<Rightarrow> bool io" where
  "save_state_to_supabase ev =
     try_except
       (bindE (remote ev StateSelect (state_select ev)) (\<lambda>existing.
          bindE (remote ev (if existing then StateUpdate else StateInsert) (state_write ev)) (\<lambda>_.
            returnE True)))
       (\<lambda>e. returnE False)"

section \<open>The edit form\<close>

definition fields :: "string list" where
  "fields = [''Brand'', ''Campaign'', ''Channel'', ''Asset'', ''Format'', ''Version'', ''Date'']"

text \<open>\<^verbatim>\<open>pending_changes.get(row['Full Path'], str(row["Proposed New Name"]))\<close>.\<close>

definition current_name :: "(cell \<times> string) list \<Rightarrow> row \<Rightarrow> string" where
  "current_name pending r =
     (case map_of pending (full_path r) of
        Some v \<Rightarrow> v
      | None \<Rightarrow> py_str (proposed_new_name r))"

text \<open>\<^verbatim>\<open>while len(parts) < 7: parts.append("")\<close>.\<close>

definition pad_parts :: "string list \<Rightarrow> string list" where
  "pad_parts parts = parts @ replicate (7 - length parts) []"

text \<open>An enabled \<^verbatim>\<open>st.text_input\<close> returns what the operator typed into
  the widget, or the given value when nothing was typed.\<close>

definition text_input :: "(nat \<Rightarrow> string option) \<Rightarrow> nat \<Rightarrow> string \<Rightarrow> string" where
  "text_input typed i v = (case typed i of None \<Rightarrow> v | Some t \<Rightarrow> t)"

text \<open>The body of \<^verbatim>\<open>for i, field in enumerate(fields)\<close>.\<close>

definition edit_field :: "(nat \<Rightarrow> string option) \<Rightarrow> string list \<Rightarrow> nat \<times> string \<Rightarrow> string" where
  "edit_field typed parts p =
     (case p of (i, field) \<Rightarrow>
        (let current = (if i < length parts then parts ! i else [])
         in if py_lower (py_strip current) = py_lower field
            then text_input typed i current
            else current))"

definition edited_parts :: "(nat \<Rightarrow> string option) \<Rightarrow> string list \<Rightarrow> string list" where
  "edited_parts typed parts = map (edit_field typed parts) (enumerate 0 fields)"

definition new_proposed :: "(nat \<Rightarrow> string option) \<Rightarrow> (cell \<times> string) list \<Rightarrow> row \<Rightarrow> string" where
  "new_proposed typed pending r =
     py_join ''_'' (edited_parts typed (pad_parts (py_split CHR ''_'' (current_name pending r))))"

section \<open>Buttons of the edit form\<close>

text \<open>How a handler leaves the script run: it goes on, \<^verbatim>\<open>st.rerun()\<close>,
  \<^verbatim>\<open>st.stop()\<close>, or an exception that nothing catches.\<close>

datatype flow = Continue | Rerun | Stop | Raised exn

text \<open>\<^verbatim>\<open>Previous\<close> and \<^verbatim>\<open>Next\<close>; \<open>n\<close> is \<^verbatim>\<open>len(invalid_rows)\<close>.\<close>

definition on_previous :: "env \<Rightarrow> session \<Rightarrow> world \<Rightarrow> flow \<times> session \<times> world" where
  "on_previous ev ss w =
     (if index ss > 0
      then (Rerun, ss\<lparr>index := index ss - 1\<rparr>, snd (save_state_to_supabase ev w))
      else (Continue, ss, w))"

definition on_next :: "env \<Rightarrow> int \<Rightarrow> session \<Rightarrow> world \<Rightarrow> flow \<times> session \<times> world" where
  "on_next ev n ss w =
     (if index ss < n - 1
      then (Rerun, ss\<lparr>index := index ss + 1\<rparr>, snd (save_state_to_supabase ev w))
      else (Continue, ss, w))"

text \<open>\<^verbatim>\<open>Save Change\<close> and \<^verbatim>\<open>Reset\<close> for the row shown.\<close>

definition on_save_change ::
  "env \<Rightarrow> (nat \<Rightarrow> string option) \<Rightarrow> row \<Rightarrow> session \<Rightarrow> world \<Rightarrow> flow \<times> session \<times> world" where
  "on_save_change ev typed r ss w =
     (let ss' = ss\<lparr>pending_changes :=
                   AList.update (full_path r) (new_proposed typed (pending_changes ss) r)
                     (pending_changes ss)\<rparr>;
          w1 = snd (save_state_to_supabase ev w);
          w2 = snd (say (Success ''Change saved to batch!'') w1)
      in (Rerun, ss', w2))"

definition on_reset :: "env \<Rightarrow> row \<Rightarrow> session \<Rightarrow> world \<Rightarrow> flow \<times> session \<times> world" where
  "on_reset ev r ss w =
     (let ss' = (if full_path r \<in> fst ` set (pending_changes ss)
                 then ss\<lparr>pending_changes := AList.delete (full_path r) (pending_changes ss)\<rparr>
                 else ss)
      in (Rerun, ss', snd (save_state_to_supabase ev w)))"

section \<open>Writing the changes back\<close>

text \<open>Comparison of a column with a key, cell by cell: NaN equals nothing.\<close>

fun cell_eq :: "cell \<Rightarrow> cell \<Rightarrow> bool" where
  "cell_eq (Text a) (Text b) = (a = b)"
| "cell_eq _ _ = False"

text \<open>One round of the loop of \<^verbatim>\<open>save_pending_changes_to_excel\<close>.\<close>

definition change_mask :: "table \<Rightarrow> cell \<Rightarrow> bool list" where
  "change_mask t k =
     (let mask = map (\<lambda>r. cell_eq (full_path r) k) t
      in if length (filter id mask) = 0 then map (\<lambda>r. cell_eq (original_name r) k) t else mask)"

definition apply_change :: "table \<Rightarrow> cell \<times> string \<Rightarrow> table" where
  "apply_change t p =
     (case p of (k, new_name) \<Rightarrow>
        map (\<lambda>(r, m). if m then r\<lparr>proposed_new_name := Text new_name\<rparr> else r)
          (zip t (change_mask t k)))"

definition apply_pending :: "table \<Rightarrow> (cell \<times> string) list \<Rightarrow> table" where
  "apply_pending t pending = foldl apply_change t pending"

text \<open>A row is matched by a key in a table: by its Full Path, or by its
  Original Name when no row of the table has the key as Full Path.\<close>

definition matched :: "table \<Rightarrow> cell \<Rightarrow> row \<Rightarrow> bool" where
  "matched t k r =
     (if list_ex (\<lambda>r'. cell_eq (full_path r') k) t
      then cell_eq (full_path r) k
      else cell_eq (original_name r) k)"

text \<open>The positions that some round of the loop assigns to.\<close>

definition updated_rows :: "table \<Rightarrow> (cell \<times> string) list \<Rightarrow> nat list" where
  "updated_rows t pending =
     filter (\<lambda>i. list_ex (\<lambda>k. change_mask t k ! i) (map fst pending)) [0..<length t]"

definition default_excel_filename :: string where
  "default_excel_filename = ''Updated_Clients_Rename_Log.xlsx''"

text \<open>\<^verbatim>\<open>save_pending_changes_to_excel(df, pending_changes)\<close>; \<open>df\<close> is the table
  of the session, changed in place before the file is written.\<close>

definition save_pending_changes_to_excel ::
  "env \<Rightarrow> table \<Rightarrow> (cell \<times> string) list \<Rightarrow> string \<Rightarrow> session \<Rightarrow> world
     \<Rightarrow> (exn + string) \<times> session \<times> world" where
  "save_pending_changes_to_excel ev t pending excel_filename ss w =
     (let t' = apply_pending t pending;
          ss1 = ss\<lparr>df := Some t'\<rparr>
      in case excel_write ev (requests w) excel_filename of
           Inl e \<Rightarrow> (Inl e, ss1, w)
         | Inr _ \<Rightarrow>
             (let w1 = w\<lparr>disk := (disk w)(excel_filename \<mapsto> t')\<rparr>;
                  ss2 = ss1\<lparr>last_saved_file := Some excel_filename\<rparr>;
                  w2 = snd (save_state_to_supabase ev w1);
                  w3 = snd (say (Success (''Changes saved to the existing file: '' @ excel_filename)) w2)
              in (Inr excel_filename, ss2, w3)))"

text \<open>The button \<^verbatim>\<open>Save All to Excel\<close> (and \<^verbatim>\<open>Save Batch to Excel Now\<close>, which
  does the same and then reruns).\<close>

definition on_save_all :: "env \<Rightarrow> table \<Rightarrow> session \<Rightarrow> world \<Rightarrow> flow \<times> session \<times> world" where
  "on_save_all ev t ss w =
     (case save_pending_changes_to_excel ev t (pending_changes ss) default_excel_filename ss w of
        (Inl e, ss1, w1) \<Rightarrow> (Raised e, ss1, w1)
      | (Inr out_fname, ss1, w1) \<Rightarrow>
          (let num_changes = length (pending_changes ss1);
               ss2 = ss1\<lparr>pending_changes := []\<rparr>;
               w2 = snd (save_state_to_supabase ev w1);
               w3 = snd (say (Success (''All '' @ dec num_changes @ '' changes saved to '' @ out_fname)) w2)
           in (Continue, ss2, w3)))"

section \<open>Upload of the last saved file\<close>

text \<open>\<^verbatim>\<open>os.path.basename\<close>.\<close>

definition basename :: "string \<Rightarrow> string" where
  "basename p = last (py_split CHR ''/'' p)"

definition default_bucket :: string where
  "default_bucket = ''renamed_excel''"

text \<open>\<^verbatim>\<open>upload_to_supabase(file_path)\<close>: remove the object of that name (a
  failure there is printed and ignored), read the file, upload it.\<close>

definition upload_to_supabase :: "env \<Rightarrow> string \<Rightarrow> string \<Rightarrow> bool io" where
  "upload_to_supabase ev file_path bucket_name =
     try_except
       (let file_name = basename file_path in
        bindE (try_except
                 (bindE (remote ev (StorageRemove bucket_name file_name)
                           (\<lambda>h. storage_remove ev h bucket_name file_name)) (\<lambda>_.
                    say (Info (''Removed existing file: '' @ file_name))))
                 (\<lambda>e. returnE ())) (\<lambda>_.
        bindE (\<lambda>w. (case disk w file_path of None \<Rightarrow> Inl OSError | Some c \<Rightarrow> Inr c, w)) (\<lambda>_.
        bindE (remote ev (StorageUpload bucket_name file_name)
                 (\<lambda>h. storage_upload ev h bucket_name file_name)) (\<lambda>_.
        bindE (say (Success (''File successfully uploaded to Supabase: '' @ file_name))) (\<lambda>_.
        returnE True)))))
       (\<lambda>e. bindE (say (Error (''Upload to Supabase failed: '' @ exn_name e))) (\<lambda>_.
            bindE (say (Error (''Details: '' @ exn_name e))) (\<lambda>_.
            returnE False)))"

text \<open>The button \<^verbatim>\<open>Upload Last Saved Excel to Supabase\<close>.\<close>

definition on_upload :: "env \<Rightarrow> session \<Rightarrow> world \<Rightarrow> flow \<times> session \<times> world" where
  "on_upload ev ss w =
     (if truthy (last_saved_file ss) \<and> disk w (the (last_saved_file ss)) \<noteq> None
      then (Continue, ss, snd (upload_to_supabase ev (the (last_saved_file ss)) default_bucket w))
      else (Continue, ss, snd (say (Warning ''Please save an Excel file first before uploading.'') w)))"

section \<open>Looking folders and files up in Drive\<close>

text \<open>The quote character, and \<^verbatim>\<open>s.replace("'", "\\'")\<close>.\<close>

definition sq :: string where
  "sq = [CHR 0x27]"

definition escape_quotes :: "string \<Rightarrow> string" where
  "escape_quotes s = py_replace (CHR 0x27) [CHR 0x5C, CHR 0x27] s"

text \<open>The query of \<^verbatim>\<open>find_folder_id\<close>: the clause on the parent is there only
  for a parent that is neither \<^verbatim>\<open>None\<close> nor empty.\<close>

definition folder_query :: "string \<Rightarrow> string option \<Rightarrow> string" where
  "folder_query folder_name parent_id =
     py_join '' and ''
       ([''name = '' @ sq @ escape_quotes folder_name @ sq,
         ''mimeType = '' @ sq @ ''application/vnd.google-apps.folder'' @ sq,
         ''trashed = false'']
        @ (if truthy parent_id then [sq @ the parent_id @ sq @ '' in parents''] else []))"

definition file_query :: "string \<Rightarrow> string \<Rightarrow> string" where
  "file_query parent_folder_id filename =
     ''name = '' @ sq @ escape_quotes filename @ sq @ '' and '' @ sq @ parent_folder_id @ sq
       @ '' in parents and trashed = false''"

definition name_query :: "string \<Rightarrow> string" where
  "name_query filename = ''name = '' @ sq @ escape_quotes filename @ sq @ '' and trashed = false''"

text \<open>
  \<^verbatim>\<open>@st.cache_data(ttl=3600)\<close>: a value stored for the same arguments less than
  \<open>cache_ttl\<close> seconds ago is returned without running the function; otherwise
  the function runs and its value is stored with the time.
\<close>

definition cache_ttl :: nat where
  "cache_ttl = 3600"

definition compute_and_store ::
  "(world \<Rightarrow> 'k \<rightharpoonup> nat \<times> 'v) \<Rightarrow> (('k \<rightharpoonup> nat \<times> 'v) \<Rightarrow> world \<Rightarrow> world) \<Rightarrow> 'k \<Rightarrow> 'v io \<Rightarrow> 'v io" where
  "compute_and_store memo put key compute =
     (\<lambda>w. case compute w of
            (Inl e, w') \<Rightarrow> (Inl e, w')
          | (Inr v, w') \<Rightarrow> (Inr v, put ((memo w')(key \<mapsto> (now w', v))) w'))"

definition cache_data ::
  "(world \<Rightarrow> 'k \<rightharpoonup> nat \<times> 'v) \<Rightarrow> (('k \<rightharpoonup> nat \<times> 'v) \<Rightarrow> world \<Rightarrow> world) \<Rightarrow> 'k \<Rightarrow> 'v io \<Rightarrow> 'v io" where
  "cache_data memo put key compute =
     (\<lambda>w. case memo w key of
            None \<Rightarrow> compute_and_store memo put key compute w
          | Some (t, v) \<Rightarrow>
              if now w < t + cache_ttl then (Inr v, w)
              else compute_and_store memo put key compute w)"

text \<open>The undecorated \<^verbatim>\<open>find_folder_id\<close> and the decorated one; the
  underscore-prefixed \<^verbatim>\<open>_drive_service\<close> is not part of the key.\<close>

definition find_folder_id_body :: "env \<Rightarrow> string \<Rightarrow> string option \<Rightarrow> string option io" where
  "find_folder_id_body ev folder_name parent_id =
     try_except
       (bindE (remote ev (FilesList (folder_query folder_name parent_id))
                 (\<lambda>h. files_list ev h (folder_query folder_name parent_id))) (\<lambda>items.
          returnE (case items of [] \<Rightarrow> None | it # _ \<Rightarrow> Some (fm_id it))))
       (\<lambda>e. returnE None)"

definition find_folder_id :: "env \<Rightarrow> string \<Rightarrow> string option \<Rightarrow> string option io" where
  "find_folder_id ev folder_name parent_id =
     (\<lambda>w. cache_data folder_memo (\<lambda>m w. w\<lparr>folder_memo := m\<rparr>) (folder_name, parent_id)
            (find_folder_id_body ev folder_name parent_id)
            (w\<lparr>lookups := lookups w @ [(folder_name, parent_id)]\<rparr>))"

text \<open>\<^verbatim>\<open>get_file_in_folder\<close>; the file name may be a NaN cell, on which
  \<^verbatim>\<open>.replace\<close> raises inside the \<^verbatim>\<open>try\<close>.\<close>

definition get_file_in_folder_body :: "env \<Rightarrow> string \<Rightarrow> cell \<Rightarrow> file_meta option io" where
  "get_file_in_folder_body ev parent_folder_id filename =
     try_except
       (case filename of
          Blank \<Rightarrow> raiseE AttributeError
        | Text f \<Rightarrow>
            bindE (remote ev (FilesList (file_query parent_folder_id f))
                     (\<lambda>h. files_list ev h (file_query parent_folder_id f))) (\<lambda>items.
              returnE (case items of [] \<Rightarrow> None | it # _ \<Rightarrow> Some it)))
       (\<lambda>e. returnE None)"

definition get_file_in_folder :: "env \<Rightarrow> string \<Rightarrow> cell \<Rightarrow> file_meta option io" where
  "get_file_in_folder ev parent_folder_id filename =
     cache_data file_memo (\<lambda>m w. w\<lparr>file_memo := m\<rparr>) (parent_folder_id, filename)
       (get_file_in_folder_body ev parent_folder_id filename)"

section \<open>Downloading a file\<close>

text \<open>\<^verbatim>\<open>os.path.splitext(p)[1]\<close>: from the last dot of the last path component,
  unless that component has no dot or only dots before it.\<close>

definition splitext_ext :: "string \<Rightarrow> string" where
  "splitext_ext p =
     (let base = last (py_split CHR ''/'' p);
          ext_rev = takeWhile (\<lambda>c. c \<noteq> CHR ''.'') (rev base);
          stem_rev = dropWhile (\<lambda>c. c \<noteq> CHR ''.'') (rev base)
      in if stem_rev = [] \<or> list_all (\<lambda>c. c = CHR ''.'') stem_rev then []
         else CHR ''.'' # rev ext_rev)"

text \<open>\<^verbatim>\<open>while not done: status, done = downloader.next_chunk()\<close> over the
  outcomes that the service gives: the result and the number of calls made. A
  call beyond the last outcome fails.\<close>

fun next_chunks :: "(exn + bool) list \<Rightarrow> (exn + unit) \<times> nat" where
  "next_chunks [] = (Inl HttpError, 1)"
| "next_chunks (Inl e # rest) = (Inl e, 1)"
| "next_chunks (Inr True # rest) = (Inr (), 1)"
| "next_chunks (Inr False # rest) = (case next_chunks rest of (r, n) \<Rightarrow> (r, Suc n))"

definition download_chunks :: "env \<Rightarrow> string \<Rightarrow> unit io" where
  "download_chunks ev file_id =
     (\<lambda>w. case next_chunks (media_chunks ev (requests w) file_id) of
            (r, n) \<Rightarrow>
              (r, w\<lparr>requests := requests w @ replicate n (NextChunk file_id),
                    now := now w + n * delay ev (requests w)\<rparr>))"

text \<open>\<^verbatim>\<open>download_file_to_temp\<close>: \<^verbatim>\<open>(tmp.name, mime, name, webViewLink)\<close>, or
  four times \<^verbatim>\<open>None\<close> after any failure.\<close>

definition download_file_to_temp ::
  "env \<Rightarrow> string \<Rightarrow> cell \<Rightarrow> (string option \<times> string option \<times> string option \<times> string option) io" where
  "download_file_to_temp ev file_id file_name_hint =
     try_except
       (bindE (remote ev (FilesGet file_id) (\<lambda>h. files_get ev h file_id)) (\<lambda>meta.
        bindE (case fi_name meta of
                 Some n \<Rightarrow> returnE n
               | None \<Rightarrow> (case file_name_hint of
                            Text h \<Rightarrow> returnE h
                          | Blank \<Rightarrow> raiseE TypeError)) (\<lambda>nm.
        bindE (\<lambda>w. (make_temp ev (requests w) (splitext_ext nm), w)) (\<lambda>tmp.
        bindE (download_chunks ev file_id) (\<lambda>_.
        returnE (Some tmp, fi_mime meta, fi_name meta, fi_link meta))))))
       (\<lambda>e. returnE (None, None, None, None))"

section \<open>Resolving a row\<close>

definition base_segments :: "string list" where
  "base_segments = [''Cog Culture Repository'', ''Clients'', ''Aarize Group'']"

text \<open>\<^verbatim>\<open>f"{row['Full Path']}_{row['Original Name']}"\<close>.\<close>

definition cache_key :: "row \<Rightarrow> string" where
  "cache_key r = py_str (full_path r) @ ''_'' @ py_str (original_name r)"

definition extra_segments :: "row \<Rightarrow> string list" where
  "extra_segments r =
     filter (\<lambda>seg. seg \<noteq> [])
       (py_split CHR ''/'' (py_strip_char CHR ''/'' (py_replace (CHR 0x5C) ''/'' (py_str (full_path r)))))"

text \<open>The search for \<^verbatim>\<open>start_idx\<close>: the first position at which the base
  hierarchy occurs in the lowered segments.\<close>

fun find_start :: "nat \<Rightarrow> string list \<Rightarrow> string list \<Rightarrow> nat option" where
  "find_start i [] base_low = None"
| "find_start i (x # xs) base_low =
     (if take (length base_low) (x # xs) = base_low then Some (i + length base_low)
      else find_start (Suc i) xs base_low)"

definition file_path_segments :: "row \<Rightarrow> string list" where
  "file_path_segments r =
     (let extra = extra_segments r
      in case find_start 0 (map py_lower extra) (map py_lower base_segments) of
           Some start_idx \<Rightarrow> drop start_idx extra
         | None \<Rightarrow> extra)"

text \<open>One round of \<^verbatim>\<open>for seg in base_segments\<close>, and the loop with its
  \<^verbatim>\<open>break\<close>.\<close>

definition base_step :: "env \<Rightarrow> string \<Rightarrow> string option \<Rightarrow> string option io" where
  "base_step ev seg parent_id =
     bindE (find_folder_id ev seg parent_id) (\<lambda>found.
       if \<not> truthy found then find_folder_id ev seg None else returnE found)"

fun traverse_base :: "env \<Rightarrow> string list \<Rightarrow> string option \<Rightarrow> string option io" where
  "traverse_base ev [] parent_id w = (Inr parent_id, w)"
| "traverse_base ev (seg # segs) parent_id w =
     (case base_step ev seg parent_id w of
        (Inl e, w') \<Rightarrow> (Inl e, w')
      | (Inr p, w') \<Rightarrow> if \<not> truthy p then (Inr p, w') else traverse_base ev segs p w')"

text \<open>\<^verbatim>\<open>for seg in file_path_segments[:-1]\<close>.\<close>

fun traverse_path :: "env \<Rightarrow> string list \<Rightarrow> string option \<Rightarrow> string option io" where
  "traverse_path ev [] parent_id w = (Inr parent_id, w)"
| "traverse_path ev (seg # segs) parent_id w =
     (case find_folder_id ev seg parent_id w of
        (Inl e, w') \<Rightarrow> (Inl e, w')
      | (Inr folder_id, w') \<Rightarrow>
          if truthy folder_id then traverse_path ev segs folder_id w' else (Inr parent_id, w'))"

definition not_found :: resolution where
  "not_found = (None, None, None, None, None)"

text \<open>The search in the folder reached, and the two searches by name in the
  whole store; each of the latter runs only while \<^verbatim>\<open>file_meta\<close> is missing.\<close>

definition search_in_folder :: "env \<Rightarrow> string option \<Rightarrow> cell \<Rightarrow> resolution io" where
  "search_in_folder ev parent_id filename_guess =
     (if truthy parent_id
      then bindE (get_file_in_folder ev (the parent_id) filename_guess) (\<lambda>file_meta.
             case file_meta of
               None \<Rightarrow> returnE not_found
             | Some fm \<Rightarrow>
                 bindE (download_file_to_temp ev (fm_id fm) filename_guess) (\<lambda>d.
                   returnE (Some fm, d)))
      else returnE not_found)"

definition fallback_search :: "env \<Rightarrow> cell \<Rightarrow> resolution \<Rightarrow> resolution io" where
  "fallback_search ev name res =
     (if fst res \<noteq> None then returnE res
      else try_except
             (case name of
                Blank \<Rightarrow> raiseE AttributeError
              | Text n \<Rightarrow>
                  bindE (remote ev (FilesList (name_query n)) (\<lambda>h. files_list ev h (name_query n))) (\<lambda>items.
                    case items of
                      [] \<Rightarrow> returnE res
                    | it # _ \<Rightarrow>
                        bindE (download_file_to_temp ev (fm_id it) name) (\<lambda>d.
                          returnE (Some it, d))))
             (\<lambda>e. returnE res))"

text \<open>\<^verbatim>\<open>get_file_from_drive\<close> after the look into the cache.\<close>

definition resolve :: "env \<Rightarrow> row \<Rightarrow> resolution io" where
  "resolve ev r =
     (let segs = file_path_segments r;
          filename_guess = (if segs \<noteq> [] then Text (last segs) else original_name r)
      in bindE (traverse_base ev base_segments None) (\<lambda>p0.
         bindE (if \<not> truthy p0 then find_folder_id ev (base_segments ! 0) None else returnE p0) (\<lambda>p1.
         bindE (if truthy p1 then traverse_path ev (butlast segs) p1 else returnE p1) (\<lambda>parent_id.
         bindE (search_in_folder ev parent_id filename_guess) (\<lambda>res1.
         bindE (fallback_search ev filename_guess res1) (\<lambda>res2.
         fallback_search ev (Text (py_str (original_name r))) res2))))))"

definition get_file_from_drive ::
  "env \<Rightarrow> row \<Rightarrow> (string \<rightharpoonup> resolution) \<Rightarrow> (resolution \<times> (string \<rightharpoonup> resolution)) io" where
  "get_file_from_drive ev r cache =
     (case cache (cache_key r) of
        Some res \<Rightarrow> returnE (res, cache)
      | None \<Rightarrow> bindE (resolve ev r) (\<lambda>res. returnE (res, cache(cache_key r \<mapsto> res))))"

section \<open>Specifications of computations\<close>

text \<open>
  From a world that satisfies \<open>P\<close> the computation either returns a value
  with \<open>Q\<close> or raises an exception with \<open>E\<close>; \<open>returns\<close> excludes the exception.
\<close>

definition ensures ::
  "(world \<Rightarrow> bool) \<Rightarrow> 'a io \<Rightarrow> ('a \<Rightarrow> world \<Rightarrow> bool) \<Rightarrow> (exn \<Rightarrow> world \<Rightarrow> bool) \<Rightarrow> bool" where
  "ensures P m Q E =
     (\<forall>w. P w \<longrightarrow> (case m w of (Inr v, w') \<Rightarrow> Q v w' | (Inl e, w') \<Rightarrow> E e w'))"

definition returns :: "(world \<Rightarrow> bool) \<Rightarrow> 'a io \<Rightarrow> ('a \<Rightarrow> world \<Rightarrow> bool) \<Rightarrow> bool" where
  "returns P m Q = ensures P m Q (\<lambda>e w. False)"

text \<open>What a caller can meet in a resolution: nothing found, a file found whose
  download failed, or a file with its local copy.\<close>

definition download_ok :: "string option \<times> string option \<times> string option \<times> string option \<Rightarrow> bool" where
  "download_ok d = (case d of (tmp_path, mime, actual_name, link) \<Rightarrow>
     tmp_path = None \<longrightarrow> mime = None \<and> actual_name = None \<and> link = None)"

definition outcome_ok :: "resolution \<Rightarrow> bool" where
  "outcome_ok res = (case res of (file_meta, d) \<Rightarrow>
     download_ok d \<and> (file_meta = None \<longrightarrow> d = (None, None, None, None)))"

text \<open>Surroundings in which every Drive query fails, and surroundings in
  which no download can complete: the metadata are never served, or no
  temporary file can be made, or the content never arrives.\<close>

definition lookups_fail :: "env \<Rightarrow> bool" where
  "lookups_fail ev = (\<forall>h q. isl (files_list ev h q))"

definition downloads_fail :: "env \<Rightarrow> bool" where
  "downloads_fail ev =
     ((\<forall>h i. isl (files_get ev h i)) \<or> (\<forall>h s. isl (make_temp ev h s))
      \<or> (\<forall>h i. isl (fst (next_chunks (media_chunks ev h i)))))"

text \<open>The test of the preview, \<^verbatim>\<open>if file_meta and tmp_path\<close>.\<close>

definition found :: "resolution \<Rightarrow> bool" where
  "found res = (case res of (file_meta, tmp_path, rest) \<Rightarrow> file_meta \<noteq> None \<and> truthy tmp_path)"

text \<open>How often a walk through rows runs the part of the resolver behind the
  cache for the key \<open>k\<close>.\<close>

fun body_runs :: "env \<Rightarrow> string \<Rightarrow> row list \<Rightarrow> (string \<rightharpoonup> resolution) \<Rightarrow> world \<Rightarrow> nat" where
  "body_runs ev k [] cache w = 0"
| "body_runs ev k (r # rs) cache w =
     (case get_file_from_drive ev r cache w of
        (Inl e, w') \<Rightarrow> 0
      | (Inr (res, cache'), w') \<Rightarrow>
          (if cache_key r = k \<and> cache (cache_key r) = None then 1 else 0)
            + body_runs ev k rs cache' w')"

section \<open>Start of a session\<close>

text \<open>\<^verbatim>\<open>st.session_state\<close> as the script initialises it, a process that has
  done nothing yet, and surroundings in which every call fails.\<close>

definition initial_session :: session where
  "initial_session =
     \<lparr>pending_changes = [], index = 0, drive_service = None, file_cache = Map.empty,
      df = None, invalid_rows_state = None, last_saved_file = None\<rparr>"

definition initial_world :: world where
  "initial_world =
     \<lparr>now = 0, requests = [], lookups = [], folder_memo = Map.empty, file_memo = Map.empty,
      disk = Map.empty, messages = []\<rparr>"

definition unreachable :: env where
  "unreachable =
     \<lparr>files_list = (\<lambda>h q. Inl HttpError), files_get = (\<lambda>h i. Inl HttpError),
      media_chunks = (\<lambda>h i. []), make_temp = (\<lambda>h s. Inl OSError),
      state_select = (\<lambda>h. Inl HttpError), state_write = (\<lambda>h. Inl HttpError),
      storage_remove = (\<lambda>h b f. Inl HttpError), storage_upload = (\<lambda>h b f. Inl HttpError),
      excel_write = (\<lambda>h f. Inl OSError), auth = (\<lambda>c. Inl ValueError), delay = (\<lambda>h. 1)\<rparr>"

text \<open>Surroundings in which only the local disk works.\<close>

definition offline :: env where
  "offline = unreachable\<lparr>excel_write := (\<lambda>h f. Inr ())\<rparr>"




text \<open>A row whose proposed name is all placeholders, and an operator who
  fills in the first field only.\<close>

definition example_row :: row where
  "example_row =
     \<lparr>type_col = Text ''File'', original_name = Text ''logo.png'',
      proposed_new_name = Text ''Brand_Campaign_Channel_Asset_Format_Version_Date'',
      full_path = Text ''Clients/Acme/logo.png'', created_date = Blank,
      timestamp_col = Blank, action_col = Blank\<rparr>"


section \<open>The script\<close>

text \<open>
  The names that the module has bound when its main part runs (imports,
  assignments and function definitions of lines 1 to 420) and the built-in
  functions of Python. A name in neither raises \<^verbatim>\<open>NameError\<close>.
\<close>

definition module_names :: "string list" where
  "module_names =
     [''st'', ''pd'', ''tempfile'', ''service_account'', ''build'', ''MediaIoBaseDownload'',
      ''json'', ''io'', ''os'', ''datetime'', ''time'', ''hashlib'', ''create_client'', ''Client'',
      ''SUPABASE_URL'', ''SUPABASE_KEY'', ''get_supabase_client'', ''get_user_id'',
      ''save_state_to_supabase'', ''load_state_from_supabase'', ''auto_refresh_script'',
      ''current_time'', ''credentials_file'', ''excel_file'',
      ''build_drive_service_from_secrets'', ''find_folder_id'', ''get_file_in_folder'',
      ''download_file_to_temp'', ''get_file_from_drive'', ''save_pending_changes_to_excel'',
      ''upload_to_supabase'']"

definition builtin_names :: "string list" where
  "builtin_names =
     [''abs'', ''aiter'', ''all'', ''anext'', ''any'', ''ascii'', ''bin'', ''bool'', ''breakpoint'',
      ''bytearray'', ''bytes'', ''callable'', ''chr'', ''classmethod'', ''compile'', ''complex'',
      ''delattr'', ''dict'', ''dir'', ''divmod'', ''enumerate'', ''eval'', ''exec'', ''filter'',
      ''float'', ''format'', ''frozenset'', ''getattr'', ''globals'', ''hasattr'', ''hash'', ''help'',
      ''hex'', ''id'', ''input'', ''int'', ''isinstance'', ''issubclass'', ''iter'', ''len'', ''list'',
      ''locals'', ''map'', ''max'', ''memoryview'', ''min'', ''next'', ''object'', ''oct'', ''open'',
      ''ord'', ''pow'', ''print'', ''property'', ''range'', ''repr'', ''reversed'', ''round'', ''set'',
      ''setattr'', ''slice'', ''sorted'', ''staticmethod'', ''str'', ''sum'', ''super'', ''tuple'',
      ''type'', ''vars'', ''zip'', ''Exception'']"

definition lookup_name :: "string \<Rightarrow> exn + string" where
  "lookup_name n = (if n \<in> set module_names \<or> n \<in> set builtin_names then Inr n else Inl NameError)"

text \<open>A call \<^verbatim>\<open>name(credentials)\<close>: the name is looked up first; of the bound
  names only \<^verbatim>\<open>build_drive_service_from_secrets\<close> takes the credentials and
  builds a Drive client.\<close>

definition call_with_credentials :: "env \<Rightarrow> string \<Rightarrow> (string \<times> string) list \<Rightarrow> exn + unit" where
  "call_with_credentials ev n creds =
     (case lookup_name n of
        Inl e \<Rightarrow> Inl e
      | Inr f \<Rightarrow> if f = ''build_drive_service_from_secrets'' then auth ev creds else Inl TypeError)"

definition required_cols :: "string list" where
  "required_cols =
     [''Type'', ''Original Name'', ''Proposed New Name'', ''Full Path'', ''Created Date'',
      ''Timestamp'', ''Action'']"

text \<open>Lines 427 to 432: the Drive client is built once per session.\<close>

definition service_step :: "env \<Rightarrow> inputs \<Rightarrow> session \<Rightarrow> world \<Rightarrow> flow \<times> session \<times> world" where
  "service_step ev inp ss w =
     (if drive_service ss = None
      then (case call_with_credentials ev ''build_drive_service'' (credentials_file inp) of
              Inl e \<Rightarrow> (Stop, ss, snd (say (Error (''Auth error: '' @ exn_name e)) w))
            | Inr svc \<Rightarrow> (Continue, ss\<lparr>drive_service := Some svc\<rparr>, w))
      else (Continue, ss, w))"

text \<open>Lines 437 to 453: the spreadsheet is loaded once per session.\<close>

definition load_step :: "inputs \<Rightarrow> session \<Rightarrow> world \<Rightarrow> flow \<times> session \<times> world" where
  "load_step inp ss w =
     (if df ss = None
      then (case excel_file inp of
              None \<Rightarrow> (Raised ValueError, ss, w)
            | Some (Inl e) \<Rightarrow> (Raised e, ss, w)
            | Some (Inr (cols, t)) \<Rightarrow>
                if list_ex (\<lambda>c. c \<notin> set cols) required_cols
                then (Stop, ss, snd (say (Error ''Missing columns'') w))
                else (Continue, ss\<lparr>df := Some t, invalid_rows_state := Some (invalid_rows t)\<rparr>, w))
      else (Continue, ss, w))"

text \<open>\<^verbatim>\<open>invalid_rows.iloc[i]\<close>: a negative position counts from the end.\<close>

definition iloc :: "'a list \<Rightarrow> int \<Rightarrow> exn + 'a" where
  "iloc xs i =
     (if 0 \<le> i \<and> i < int (length xs) then Inr (xs ! nat i)
      else if i < 0 \<and> - int (length xs) \<le> i then Inr (xs ! nat (int (length xs) + i))
      else Inl IndexError)"

text \<open>The button \<^verbatim>\<open>Save Batch to Excel Now\<close>, shown from ten pending changes
  on, and \<^verbatim>\<open>Clear All Pending\<close>.\<close>

definition on_save_batch :: "env \<Rightarrow> table \<Rightarrow> session \<Rightarrow> world \<Rightarrow> flow \<times> session \<times> world" where
  "on_save_batch ev t ss w =
     (case save_pending_changes_to_excel ev t (pending_changes ss) default_excel_filename ss w of
        (Inl e, ss1, w1) \<Rightarrow> (Raised e, ss1, w1)
      | (Inr out_fname, ss1, w1) \<Rightarrow>
          (let num_changes = length (pending_changes ss1);
               ss2 = ss1\<lparr>pending_changes := []\<rparr>;
               w2 = snd (save_state_to_supabase ev w1);
               w3 = snd (say (Success (dec num_changes @ '' changes saved to '' @ out_fname)) w2)
           in (Rerun, ss2, w3)))"

definition on_clear_all :: "env \<Rightarrow> session \<Rightarrow> world \<Rightarrow> flow \<times> session \<times> world" where
  "on_clear_all ev ss w = (Rerun, ss\<lparr>pending_changes := []\<rparr>, snd (save_state_to_supabase ev w))"

text \<open>Lines 455 to 662: the row at the index is resolved and shown, and the
  button of the run is served.\<close>

definition process_row :: "env \<Rightarrow> inputs \<Rightarrow> session \<Rightarrow> world \<Rightarrow> flow \<times> session \<times> world" where
  "process_row ev inp ss w =
     (let t = the (df ss); flagged = the (invalid_rows_state ss); n = int (length flagged)
      in if n = 0 then (Stop, ss, snd (say (Success ''All proposed names look good!'') w))
         else (case (if clicked inp = Previous then on_previous ev ss w
                     else if clicked inp = Next then on_next ev n ss w
                     else (Continue, ss, w)) of
                 (Continue, ss1, w1) \<Rightarrow>
                   (case iloc flagged (index ss1) of
                      Inl e \<Rightarrow> (Raised e, ss1, w1)
                    | Inr r \<Rightarrow>
                        (case get_file_from_drive ev r (file_cache ss1) w1 of
                           (Inl e, w2) \<Rightarrow> (Raised e, ss1, w2)
                         | (Inr (res, cache'), w2) \<Rightarrow>
                             (let ss2 = ss1\<lparr>file_cache := cache'\<rparr>
                              in case clicked inp of
                                   SaveChange \<Rightarrow> on_save_change ev (typed_text inp) r ss2 w2
                                 | Reset \<Rightarrow> on_reset ev r ss2 w2
                                 | SaveBatch \<Rightarrow>
                                     if 10 \<le> length (pending_changes ss2) then on_save_batch ev t ss2 w2
                                     else (Continue, ss2, w2)
                                 | SaveAll \<Rightarrow>
                                     if pending_changes ss2 \<noteq> [] then on_save_all ev t ss2 w2
                                     else (Continue, ss2, w2)
                                 | Upload \<Rightarrow>
                                     if pending_changes ss2 \<noteq> [] then on_upload ev ss2 w2
                                     else (Continue, ss2, w2)
                                 | ClearAll \<Rightarrow>
                                     if pending_changes ss2 \<noteq> [] then on_clear_all ev ss2 w2
                                     else (Continue, ss2, w2)
                                 | _ \<Rightarrow> (Continue, ss2, w2))))
               | other \<Rightarrow> other))"

text \<open>The main part, lines 425 to 675, and a session as a sequence of runs.\<close>

definition main_app :: "env \<Rightarrow> inputs \<Rightarrow> session \<Rightarrow> world \<Rightarrow> flow \<times> session \<times> world" where
  "main_app ev inp ss w =
     (if credentials_file inp \<noteq> [] \<and> excel_file inp \<noteq> None
      then (case service_step ev inp ss w of
              (Continue, ss1, w1) \<Rightarrow>
                (case load_step inp ss1 w1 of
                   (Continue, ss2, w2) \<Rightarrow> process_row ev inp ss2 w2
                 | other \<Rightarrow> other)
            | other \<Rightarrow> other)
      else (Continue, ss,
            snd (say (Info ''Upload both Service Account JSON and Excel file to begin'') w)))"

fun reruns :: "env \<Rightarrow> inputs list \<Rightarrow> session \<Rightarrow> world \<Rightarrow> session \<times> world" where
  "reruns ev [] ss w = (ss, w)"
| "reruns ev (inp # inps) ss w =
     (case main_app ev inp ss w of (f, ss', w') \<Rightarrow> reruns ev inps ss' w')"

text \<open>Credentials and a spreadsheet of one flagged row, and Drive credentials
  that the library accepts.\<close>

definition example_inputs :: inputs where
  "example_inputs =
     \<lparr>credentials_file = [(''type'', ''service_account'')],
      excel_file = Some (Inr (required_cols, [example_row])),
      clicked = NoButton, typed_text = (\<lambda>i. None)\<rparr>"

definition accepting :: env where
  "accepting = unreachable\<lparr>auth := (\<lambda>c. Inr ())\<rparr>"

section \<open>Facts about the string functions\<close>

lemma py_split_not_Nil: "py_split sep s \<noteq> []"
  by (induction s) (auto split: list.splits)


lemma py_join_Cons: "ps \<noteq> [] \<Longrightarrow> py_join sep (p # ps) = p @ sep @ py_join sep ps"
  by (cases ps) auto

lemma py_join_split: "py_join [sep] (py_split sep s) = s"
proof (induction s)
  case Nil
  then show ?case by simp
next
  case (Cons c cs)
  obtain p ps where ps: "py_split sep cs = p # ps"
    using py_split_not_Nil [of sep cs] by (cases "py_split sep cs") auto
  show ?case
  proof (cases "c = sep")
    case True
    with Cons show ?thesis by (simp add: py_join_Cons py_split_not_Nil)
  next
    case False
    with Cons ps show ?thesis by (cases ps) auto
  qed
qed

lemma length_py_split: "length (py_split sep s) = Suc (length (filter (\<lambda>c. c = sep) s))"
proof (induction s)
  case Nil
  then show ?case by simp
next
  case (Cons c cs)
  obtain p ps where ps: "py_split sep cs = p # ps"
    using py_split_not_Nil [of sep cs] by (cases "py_split sep cs") auto
  with Cons show ?case by auto
qed

section \<open>The flagged subset\<close>

text \<open>
  Claim C1. A row is in the flagged subset exactly when some segment of its
  proposed name, split at underscores, equals one of the seven placeholder
  tokens up to case; the flagged subset consists of the flagged rows of the
  table at their positions, in table order.
\<close>

theorem invalid_rows_iff_placeholder_segment:
  "invalid_rows t =
     nths t {i. i < length t \<and>
       (\<exists>seg \<in> set (py_split CHR ''_'' (py_str (proposed_new_name (t ! i)))).
          \<exists>ph \<in> {''Brand'', ''Campaign'', ''Channel'', ''Asset'', ''Format'', ''Version'', ''Date''}.
            py_lower seg = py_lower ph)}
   \<and> subseq (invalid_rows t) t
   \<and> (\<forall>r. r \<in> set (invalid_rows t) \<longleftrightarrow>
         r \<in> set t \<and>
         (\<exists>seg \<in> set (py_split CHR ''_'' (py_str (proposed_new_name r))).
            \<exists>ph \<in> {''Brand'', ''Campaign'', ''Channel'', ''Asset'', ''Format'', ''Version'', ''Date''}.
              py_lower seg = py_lower ph))"
proof -
  have mask: "invalid_mask s \<longleftrightarrow>
      (\<exists>seg \<in> set (py_split CHR ''_'' s).
         \<exists>ph \<in> {''Brand'', ''Campaign'', ''Channel'', ''Asset'', ''Format'', ''Version'', ''Date''}.
           py_lower seg = py_lower ph)" for s
    unfolding invalid_mask_def placeholders_def list_ex_iff by (simp only: set_simps) metis
  have "invalid_rows t = nths t {i. i < length t \<and> invalid_mask (py_str (proposed_new_name (t ! i)))}"
    unfolding invalid_rows_def by (rule filter_eq_nths)
  moreover have "subseq (invalid_rows t) t"
    unfolding invalid_rows_def by simp
  moreover have "r \<in> set (invalid_rows t) \<longleftrightarrow>
      r \<in> set t \<and> invalid_mask (py_str (proposed_new_name r))" for r
    unfolding invalid_rows_def by simp
  ultimately show ?thesis
    unfolding mask by blast
qed

theorem invalid_rows_iff_placeholder_segment_witness:
  "\<lparr>type_col = Blank, original_name = Text ''a.png'', proposed_new_name = Text ''x_brand'',
     full_path = Text ''d/a.png'', created_date = Blank, timestamp_col = Blank, action_col = Blank\<rparr>
   \<in> set (invalid_rows
       [\<lparr>type_col = Blank, original_name = Text ''a.png'', proposed_new_name = Text ''x_brand'',
         full_path = Text ''d/a.png'', created_date = Blank, timestamp_col = Blank, action_col = Blank\<rparr>])
   \<and> ''brand'' \<in> set (py_split CHR ''_'' ''x_brand'')
   \<and> py_lower ''brand'' = py_lower ''Brand''"
proof -
  let ?a = "\<lparr>type_col = Blank, original_name = Text ''a.png'', proposed_new_name = Text ''x_brand'',
     full_path = Text ''d/a.png'', created_date = Blank, timestamp_col = Blank, action_col = Blank\<rparr>"
  have seg: "''brand'' \<in> set (py_split CHR ''_'' ''x_brand'')"
    by simp
  have low: "py_lower ''brand'' = py_lower ''Brand''"
    by (simp add: py_lower_def lower_char_def is_upper_def)
  have ph: "''Brand'' \<in> {''Brand'', ''Campaign'', ''Channel'', ''Asset'', ''Format'', ''Version'', ''Date''}"
    by (rule insertI1)
  have rhs: "?a \<in> set [?a] \<and>
      (\<exists>seg \<in> set (py_split CHR ''_'' (py_str (proposed_new_name ?a))).
         \<exists>ph \<in> {''Brand'', ''Campaign'', ''Channel'', ''Asset'', ''Format'', ''Version'', ''Date''}.
           py_lower seg = py_lower ph)"
  proof
    show "?a \<in> set [?a]" by simp
    have "proposed_new_name ?a = Text ''x_brand''" by simp
    then have "py_str (proposed_new_name ?a) = ''x_brand''" by simp
    with seg low ph show "\<exists>seg \<in> set (py_split CHR ''_'' (py_str (proposed_new_name ?a))).
         \<exists>ph \<in> {''Brand'', ''Campaign'', ''Channel'', ''Asset'', ''Format'', ''Version'', ''Date''}.
           py_lower seg = py_lower ph"
      by (metis (no_types))
  qed
  have "?a \<in> set (invalid_rows [?a])"
    using invalid_rows_iff_placeholder_segment [of "[?a]", THEN conjunct2, THEN conjunct2, THEN spec, of ?a]
      rhs by (rule iffD2)
  with seg low show ?thesis by (intro conjI)
qed








lemma pad_parts_no_sep:
  "\<forall>p \<in> set parts. sep \<notin> set p \<Longrightarrow> p \<in> set (pad_parts parts) \<Longrightarrow> sep \<notin> set p"
  by (auto simp: pad_parts_def)


section \<open>The candidate name\<close>




lemma save_state_session: "\<exists>b w'. save_state_to_supabase ev w = (Inr b, w')"
  by (auto simp: save_state_to_supabase_def try_except_def bindE_def returnE_def remote_def split: sum.splits prod.splits)

section \<open>Navigation\<close>

text \<open>
  Claim C8. With \<open>n\<close> flagged rows and the index in \<open>[0, n-1]\<close>, Previous moves
  the index by -1 and Next by +1, clamped to that interval: Previous at 0 and
  Next at \<open>n-1\<close> do nothing, and the index stays in the interval.
\<close>

theorem navigation_clamped:
  "0 \<le> index ss \<and> index ss \<le> n - 1 \<longrightarrow>
     index (fst (snd (on_previous ev ss w))) = max 0 (index ss - 1)
   \<and> index (fst (snd (on_next ev n ss w))) = min (n - 1) (index ss + 1)
   \<and> 0 \<le> index (fst (snd (on_previous ev ss w))) \<and> index (fst (snd (on_previous ev ss w))) \<le> n - 1
   \<and> 0 \<le> index (fst (snd (on_next ev n ss w))) \<and> index (fst (snd (on_next ev n ss w))) \<le> n - 1
   \<and> (index ss = 0 \<longrightarrow> on_previous ev ss w = (Continue, ss, w))
   \<and> (index ss = n - 1 \<longrightarrow> on_next ev n ss w = (Continue, ss, w))"
  by (auto simp: on_previous_def on_next_def)

theorem navigation_clamped_witness:
  "index (fst (snd (on_next unreachable 3 (initial_session\<lparr>index := 2\<rparr>) initial_world))) = 2
   \<and> index (fst (snd (on_next unreachable 3 (initial_session\<lparr>index := 1\<rparr>) initial_world))) = 2
   \<and> index (fst (snd (on_previous unreachable (initial_session\<lparr>index := 0\<rparr>) initial_world))) = 0
   \<and> index (fst (snd (on_previous unreachable (initial_session\<lparr>index := 2\<rparr>) initial_world))) = 1"
  using navigation_clamped [of "initial_session\<lparr>index := 2\<rparr>" 3 unreachable initial_world]
    navigation_clamped [of "initial_session\<lparr>index := 1\<rparr>" 3 unreachable initial_world]
    navigation_clamped [of "initial_session\<lparr>index := 0\<rparr>" 3 unreachable initial_world]
  by (simp add: initial_session_def)

section \<open>Save and reset\<close>



section \<open>Upload without a saved file\<close>

text \<open>
  Claim C10. When the session records no last saved file, or records the empty
  name, or the recorded file is not on disk, the upload button shows the
  warning and makes no request: nothing is removed from or uploaded to the bucket.
\<close>

theorem upload_without_saved_file:
  "last_saved_file ss = None \<or> last_saved_file ss = Some [] \<or> disk w (the (last_saved_file ss)) = None \<Longrightarrow>
     on_upload ev ss w =
       (Continue, ss, w\<lparr>messages := messages w @ [Warning ''Please save an Excel file first before uploading.'']\<rparr>)
     \<and> requests (snd (snd (on_upload ev ss w))) = requests w"
  by (auto simp: on_upload_def say_def)

theorem upload_without_saved_file_witness:
  "on_upload unreachable initial_session initial_world =
     (Continue, initial_session,
      initial_world\<lparr>messages := [Warning ''Please save an Excel file first before uploading.'']\<rparr>)
   \<and> requests (snd (snd (on_upload unreachable initial_session initial_world))) = []"
proof -
  have none: "last_saved_file initial_session = None"
    by (simp add: initial_session_def)
  from upload_without_saved_file [of initial_session initial_world unreachable] none
  show ?thesis
    by (simp add: initial_world_def)
qed

section \<open>Writing the pending changes into the table\<close>

lemma cell_eq_Text: "cell_eq c (Text p) \<longleftrightarrow> c = Text p"
  by (cases c) auto

lemma cell_eq_Blank: "\<not> cell_eq c Blank"
  by (cases c) auto

lemma change_mask_matched: "change_mask t k = map (matched t k) t"
  by (auto simp: change_mask_def matched_def Let_def list_ex_iff filter_empty_conv)

lemma apply_change_matched:
  "apply_change t (k, v) = map (\<lambda>r. if matched t k r then r\<lparr>proposed_new_name := Text v\<rparr> else r) t"
  by (simp add: apply_change_def change_mask_matched zip_map2 zip_same_conv_map)

lemma apply_change_full_path: "map full_path (apply_change t p) = map full_path t"
  by (cases p) (simp add: apply_change_matched)

lemma apply_change_original_name: "map original_name (apply_change t p) = map original_name t"
  by (cases p) (simp add: apply_change_matched)

lemma matched_columns:
  "map full_path t' = map full_path t \<Longrightarrow> full_path r' = full_path r \<Longrightarrow>
   original_name r' = original_name r \<Longrightarrow> matched t' k r' = matched t k r"
proof -
  assume a: "map full_path t' = map full_path t" and b: "full_path r' = full_path r"
    and c: "original_name r' = original_name r"
  have "list_ex (\<lambda>r'. cell_eq (full_path r') k) t' = list_ex (\<lambda>c. cell_eq c k) (map full_path t')"
    by (simp add: list_ex_iff)
  also have "\<dots> = list_ex (\<lambda>r'. cell_eq (full_path r') k) t"
    by (simp add: a list_ex_iff)
  finally show ?thesis
    using b c by (simp add: matched_def)
qed

lemma length_apply_change: "length (apply_change t p) = length t"
  by (cases p) (simp add: apply_change_matched)

lemma length_apply_pending: "length (apply_pending t pending) = length t"
  unfolding apply_pending_def
  by (induction pending arbitrary: t) (simp_all add: length_apply_change)

lemma apply_pending_Cons: "apply_pending t (p # pending) = apply_pending (apply_change t p) pending"
  by (simp add: apply_pending_def)

lemma apply_pending_by_full_path:
  assumes "distinct (map fst pending)"
    and "\<forall>k \<in> fst ` set pending. \<exists>p. k = Text p \<and> k \<in> full_path ` set t"
  shows "apply_pending t pending =
     map (\<lambda>r. case map_of pending (full_path r) of
                 Some v \<Rightarrow> r\<lparr>proposed_new_name := Text v\<rparr>
               | None \<Rightarrow> r) t"
  using assms
proof (induction pending arbitrary: t)
  case Nil
  then show ?case by (simp add: apply_pending_def)
next
  case (Cons kv pending)
  obtain k v where kv: "kv = (k, v)" by (cases kv)
  from Cons.prems kv obtain p where k: "k = Text p" and kin: "k \<in> full_path ` set t"
    by auto
  have hit: "list_ex (\<lambda>r'. cell_eq (full_path r') k) t"
    using kin k by (auto simp: list_ex_iff cell_eq_Text)
  have m: "matched t k r \<longleftrightarrow> full_path r = k" for r
    using hit k by (simp add: matched_def cell_eq_Text)
  let ?t' = "apply_change t (k, v)"
  have paths: "full_path ` set ?t' = full_path ` set t"
    using apply_change_full_path [of t "(k, v)"] by (metis set_map)
  have d: "distinct (map fst pending)" and knot: "k \<notin> fst ` set pending"
    using Cons.prems kv by auto
  have h: "\<forall>k \<in> fst ` set pending. \<exists>p. k = Text p \<and> k \<in> full_path ` set ?t'"
    using Cons.prems paths by auto
  have none: "map_of pending k = None"
    using knot by (simp add: map_of_eq_None_iff)
  have "apply_pending t (kv # pending) = apply_pending ?t' pending"
    by (simp add: apply_pending_Cons kv)
  also have "\<dots> = map (\<lambda>r. case map_of pending (full_path r) of
                 Some v \<Rightarrow> r\<lparr>proposed_new_name := Text v\<rparr> | None \<Rightarrow> r) ?t'"
    by (rule Cons.IH [OF d h])
  also have "\<dots> = map (\<lambda>r. case map_of (kv # pending) (full_path r) of
                 Some v \<Rightarrow> r\<lparr>proposed_new_name := Text v\<rparr> | None \<Rightarrow> r) t"
    by (simp add: apply_change_matched m kv none)
  finally show ?case .
qed


lemma apply_pending_matched_in_original:
  "map full_path t' = map full_path t \<Longrightarrow> map original_name t' = map original_name t \<Longrightarrow>
   foldl apply_change t' pending =
     foldl (\<lambda>u kv. map (\<lambda>r. if matched t (fst kv) r
                               then r\<lparr>proposed_new_name := Text (snd kv)\<rparr> else r) u) t' pending"
proof (induction pending arbitrary: t')
  case Nil
  then show ?case by simp
next
  case (Cons kv pending)
  obtain k v where kv: "kv = (k, v)" by (cases kv)
  have same: "matched t' k r = matched t k r" for r
    using Cons.prems(1) by (rule matched_columns) simp_all
  have step: "apply_change t' kv =
      map (\<lambda>r. if matched t (fst kv) r then r\<lparr>proposed_new_name := Text (snd kv)\<rparr> else r) t'"
    by (simp add: kv apply_change_matched same)
  have "map full_path (apply_change t' kv) = map full_path t"
    and "map original_name (apply_change t' kv) = map original_name t"
    using Cons.prems by (simp_all add: apply_change_full_path apply_change_original_name)
  from Cons.IH [OF this] show ?case
    by (simp add: step)
qed

lemma updated_rows_by_full_path:
  assumes "\<forall>k \<in> fst ` set pending. \<exists>p. k = Text p \<and> k \<in> full_path ` set t"
  shows "updated_rows t pending =
     filter (\<lambda>i. full_path (t ! i) \<in> fst ` set pending) [0..<length t]"
proof -
  have "list_ex (\<lambda>k. change_mask t k ! i) (map fst pending) \<longleftrightarrow>
      full_path (t ! i) \<in> fst ` set pending" if i: "i < length t" for i
  proof -
    have m: "matched t k (t ! i) \<longleftrightarrow> full_path (t ! i) = k" if "k \<in> fst ` set pending" for k
    proof -
      from assms that obtain p where k: "k = Text p" and kin: "k \<in> full_path ` set t" by blast
      then have "list_ex (\<lambda>r'. cell_eq (full_path r') k) t"
        by (auto simp: list_ex_iff cell_eq_Text)
      with k show ?thesis by (simp add: matched_def cell_eq_Text)
    qed
    show ?thesis
      using i m by (auto simp: list_ex_iff change_mask_matched)
  qed
  then show ?thesis
    unfolding updated_rows_def by (intro filter_cong refl) simp
qed

lemma length_updated_rows:
  assumes "distinct (map fst pending)" and "distinct (map full_path t)"
    and "\<forall>k \<in> fst ` set pending. \<exists>p. k = Text p \<and> k \<in> full_path ` set t"
  shows "length (updated_rows t pending) = length pending"
proof -
  let ?K = "fst ` set pending"
  let ?I = "{i. i < length t \<and> full_path (t ! i) \<in> ?K}"
  have "length (updated_rows t pending) = card ?I"
    by (simp add: updated_rows_by_full_path [OF assms(3)] distinct_length_filter Collect_conj_eq Int_commute
        atLeast0LessThan lessThan_def)
  also have "card ?I = card ((\<lambda>i. full_path (t ! i)) ` ?I)"
  proof (rule card_image [symmetric])
    show "inj_on (\<lambda>i. full_path (t ! i)) ?I"
    proof (rule inj_onI)
      fix i j assume "i \<in> ?I" "j \<in> ?I" "full_path (t ! i) = full_path (t ! j)"
      then have "map full_path t ! i = map full_path t ! j" "i < length (map full_path t)"
        "j < length (map full_path t)" by simp_all
      with assms(2) show "i = j" by (simp only: nth_eq_iff_index_eq)
    qed
  qed
  also have "(\<lambda>i. full_path (t ! i)) ` ?I = ?K"
  proof
    show "(\<lambda>i. full_path (t ! i)) ` ?I \<subseteq> ?K" by auto
    show "?K \<subseteq> (\<lambda>i. full_path (t ! i)) ` ?I"
    proof
      fix k assume k: "k \<in> ?K"
      with assms(3) have "k \<in> full_path ` set t" by blast
      then obtain i where "i < length t" "full_path (t ! i) = k"
        by (auto simp: in_set_conv_nth)
      with k show "k \<in> (\<lambda>i. full_path (t ! i)) ` ?I" by force
    qed
  qed
  also have "card ?K = length pending"
    using assms(1) by (metis distinct_card length_map set_map)
  finally show ?thesis .
qed

lemma on_save_all_clears:
  assumes "excel_write ev (requests w) default_excel_filename = Inr ()"
  shows "fst (on_save_all ev t ss w) = Continue"
    and "pending_changes (fst (snd (on_save_all ev t ss w))) = []"
    and "df (fst (snd (on_save_all ev t ss w))) = Some (apply_pending t (pending_changes ss))"
    and "last_saved_file (fst (snd (on_save_all ev t ss w))) = Some default_excel_filename"
  using assms by (simp_all add: on_save_all_def save_pending_changes_to_excel_def Let_def)


text \<open>
  Claim C3, as the code has it. Each entry of the pending changes assigns its
  name to every row that its key matches in the table: the rows with that Full
  Path or, when there is none, the rows with that Original Name; other rows and
  other columns stay as they are. When the Full Paths of the table are pairwise
  distinct and every key is the Full Path of a row, a buffer of N entries
  updates exactly N rows, each to the name of its own entry. After a flush
  whose spreadsheet write succeeds the buffer is empty.
\<close>

theorem flush_assigns_matched_rows:
  "apply_pending t pending =
     foldl (\<lambda>u kv. map (\<lambda>r. if matched t (fst kv) r
                               then r\<lparr>proposed_new_name := Text (snd kv)\<rparr> else r) u) t pending
   \<and> (distinct (map fst pending) \<and> distinct (map full_path t)
        \<and> (\<forall>k \<in> fst ` set pending. \<exists>p. k = Text p \<and> k \<in> full_path ` set t) \<longrightarrow>
        length (updated_rows t pending) = length pending
        \<and> apply_pending t pending =
            map (\<lambda>r. case map_of pending (full_path r) of
                        Some v \<Rightarrow> r\<lparr>proposed_new_name := Text v\<rparr>
                      | None \<Rightarrow> r) t)
   \<and> (excel_write ev (requests w) default_excel_filename = Inr () \<longrightarrow>
        fst (on_save_all ev t ss w) = Continue
        \<and> pending_changes (fst (snd (on_save_all ev t ss w))) = []
        \<and> df (fst (snd (on_save_all ev t ss w))) = Some (apply_pending t (pending_changes ss)))"
proof -
  have "apply_pending t pending =
     foldl (\<lambda>u kv. map (\<lambda>r. if matched t (fst kv) r
                               then r\<lparr>proposed_new_name := Text (snd kv)\<rparr> else r) u) t pending"
    unfolding apply_pending_def by (rule apply_pending_matched_in_original) simp_all
  then show ?thesis
    using length_updated_rows [of pending t] apply_pending_by_full_path [of pending t]
      on_save_all_clears [of ev w t ss]
    by blast
qed

theorem flush_assigns_matched_rows_witness:
  "length (updated_rows [example_row, example_row\<lparr>full_path := Text ''Clients/Acme/b.png''\<rparr>]
       [(Text ''Clients/Acme/logo.png'', ''Acme_x'')]) = 1
   \<and> map proposed_new_name
        (apply_pending [example_row, example_row\<lparr>full_path := Text ''Clients/Acme/b.png''\<rparr>]
           [(Text ''Clients/Acme/logo.png'', ''Acme_x'')])
       = [Text ''Acme_x'', Text ''Brand_Campaign_Channel_Asset_Format_Version_Date'']
   \<and> pending_changes (fst (snd (on_save_all offline
          [example_row, example_row\<lparr>full_path := Text ''Clients/Acme/b.png''\<rparr>]
          (initial_session\<lparr>pending_changes := [(Text ''Clients/Acme/logo.png'', ''Acme_x'')]\<rparr>)
          initial_world))) = []"
proof -
  let ?t = "[example_row, example_row\<lparr>full_path := Text ''Clients/Acme/b.png''\<rparr>]"
  let ?p = "[(Text ''Clients/Acme/logo.png'', ''Acme_x'')]"
  let ?ss = "initial_session\<lparr>pending_changes := ?p\<rparr>"
  have h1: "distinct (map fst ?p) \<and> distinct (map full_path ?t)
      \<and> (\<forall>k \<in> fst ` set ?p. \<exists>p. k = Text p \<and> k \<in> full_path ` set ?t)"
    by (simp add: example_row_def)
  have h2: "excel_write offline (requests initial_world) default_excel_filename = Inr ()"
    by (simp add: offline_def)
  note inst = flush_assigns_matched_rows [of ?t ?p offline initial_world ?ss]
  from inst h1 have a: "length (updated_rows ?t ?p) = length ?p"
    and b: "apply_pending ?t ?p =
            map (\<lambda>r. case map_of ?p (full_path r) of
                        Some v \<Rightarrow> r\<lparr>proposed_new_name := Text v\<rparr>
                      | None \<Rightarrow> r) ?t"
    by blast+
  from inst h2 have c: "pending_changes (fst (snd (on_save_all offline ?t ?ss initial_world))) = []"
    by blast
  from a have a': "length (updated_rows ?t ?p) = 1" by simp
  have b': "map proposed_new_name (apply_pending ?t ?p)
      = [Text ''Acme_x'', Text ''Brand_Campaign_Channel_Asset_Format_Version_Date'']"
    unfolding b by (simp add: example_row_def)
  from a' b' c show ?thesis by (intro conjI)
qed

text \<open>
  Claim C3 as written fails: one entry updates two rows when two rows share its
  Full Path, and no row when its key is the path or name of no row.
\<close>

theorem flush_row_count_counterexample:
  "length [(Text ''Clients/Acme/logo.png'', ''Acme_x'')] = 1
   \<and> length (updated_rows [example_row, example_row\<lparr>original_name := Text ''copy.png''\<rparr>]
        [(Text ''Clients/Acme/logo.png'', ''Acme_x'')]) = 2
   \<and> map proposed_new_name
        (apply_pending [example_row, example_row\<lparr>original_name := Text ''copy.png''\<rparr>]
           [(Text ''Clients/Acme/logo.png'', ''Acme_x'')])
       = [Text ''Acme_x'', Text ''Acme_x'']
   \<and> length (updated_rows [example_row] [(Text ''Clients/Other/gone.png'', ''Acme_x'')]) = 0
   \<and> apply_pending [example_row] [(Text ''Clients/Other/gone.png'', ''Acme_x'')] = [example_row]"
  by (simp add: updated_rows_def apply_pending_def apply_change_def change_mask_def
      example_row_def upt_rec)

section \<open>Rules for computations\<close>

lemma ensuresD:
  assumes "ensures P m Q E" and "P w"
  shows "(\<exists>v w'. m w = (Inr v, w') \<and> Q v w') \<or> (\<exists>e w'. m w = (Inl e, w') \<and> E e w')"
proof -
  obtain r w' where mw: "m w = (r, w')" by (cases "m w")
  note assms(1) [unfolded ensures_def, rule_format, OF assms(2)]
  with mw show ?thesis by (cases r) simp_all
qed

lemma ensuresI:
  assumes "\<And>w. P w \<Longrightarrow> (\<exists>v w'. m w = (Inr v, w') \<and> Q v w') \<or> (\<exists>e w'. m w = (Inl e, w') \<and> E e w')"
  shows "ensures P m Q E"
  unfolding ensures_def
proof (intro allI impI)
  fix w assume "P w"
  from assms [OF this] show "case m w of (Inl e, w') \<Rightarrow> E e w' | (Inr v, w') \<Rightarrow> Q v w'"
    by (elim disjE exE conjE) simp_all
qed

lemma returnsI:
  assumes "\<And>w. P w \<Longrightarrow> \<exists>v w'. m w = (Inr v, w') \<and> Q v w'"
  shows "returns P m Q"
  unfolding returns_def by (rule ensuresI) (use assms in blast)

lemma returnsD:
  assumes "returns P m Q" and "P w"
  shows "\<exists>v w'. m w = (Inr v, w') \<and> Q v w'"
  using ensuresD [OF assms(1) [unfolded returns_def] assms(2)] by blast

lemma returns_returnE: "(\<And>w. P w \<Longrightarrow> Q x w) \<Longrightarrow> returns P (returnE x) Q"
  by (rule returnsI) (simp add: returnE_def)

lemma returns_bindE:
  assumes "returns P m Q" and "\<And>x. returns (Q x) (f x) R"
  shows "returns P (bindE m f) R"
proof (rule returnsI)
  fix w assume "P w"
  from returnsD [OF assms(1) this] obtain x w1 where m: "m w = (Inr x, w1)" and q: "Q x w1" by blast
  from returnsD [OF assms(2) q] obtain v w2 where "f x w1 = (Inr v, w2)" and "R v w2" by blast
  with m show "\<exists>v w'. bindE m f w = (Inr v, w') \<and> R v w'"
    by (simp add: bindE_def)
qed

lemma returns_try_except:
  assumes "ensures P m Q E" and "\<And>e. returns (E e) (h e) Q"
  shows "returns P (try_except m h) Q"
proof (rule returnsI)
  fix w assume "P w"
  from ensuresD [OF assms(1) this] show "\<exists>v w'. try_except m h w = (Inr v, w') \<and> Q v w'"
  proof (elim disjE exE conjE)
    fix v w' assume "m w = (Inr v, w')" "Q v w'"
    then show ?thesis by (simp add: try_except_def)
  next
    fix e w' assume m: "m w = (Inl e, w')" and "E e w'"
    from returnsD [OF assms(2) this(2)] obtain v w2 where "h e w' = (Inr v, w2)" "Q v w2" by blast
    with m show ?thesis by (simp add: try_except_def)
  qed
qed

lemma ensures_remote:
  assumes "\<And>w v. P w \<Longrightarrow> answer (requests w) = Inr v \<Longrightarrow>
       Q v (w\<lparr>requests := requests w @ [rq], now := now w + delay ev (requests w)\<rparr>)"
    and "\<And>w e. P w \<Longrightarrow> answer (requests w) = Inl e \<Longrightarrow>
       E e (w\<lparr>requests := requests w @ [rq], now := now w + delay ev (requests w)\<rparr>)"
  shows "ensures P (remote ev rq answer) Q E"
proof (rule ensuresI)
  fix w assume "P w"
  with assms [of w] show "(\<exists>v w'. remote ev rq answer w = (Inr v, w') \<and> Q v w') \<or>
         (\<exists>e w'. remote ev rq answer w = (Inl e, w') \<and> E e w')"
    by (cases "answer (requests w)") (simp_all add: remote_def)
qed

lemma ensures_bindE:
  assumes "ensures P m Q E" and "\<And>x. ensures (Q x) (f x) R E"
  shows "ensures P (bindE m f) R E"
proof (rule ensuresI)
  fix w assume "P w"
  from ensuresD [OF assms(1) this] show "(\<exists>v w'. bindE m f w = (Inr v, w') \<and> R v w') \<or>
         (\<exists>e w'. bindE m f w = (Inl e, w') \<and> E e w')"
  proof (elim disjE exE conjE)
    fix x w1 assume m: "m w = (Inr x, w1)" and "Q x w1"
    from ensuresD [OF assms(2) this(2)] m show ?thesis
      by (auto simp: bindE_def)
  next
    fix e w1 assume "m w = (Inl e, w1)" "E e w1"
    then show ?thesis by (auto simp: bindE_def)
  qed
qed

lemma ensures_returnE: "(\<And>w. P w \<Longrightarrow> Q x w) \<Longrightarrow> ensures P (returnE x) Q E"
  by (simp add: ensures_def returnE_def)

lemma ensures_raiseE: "(\<And>w. P w \<Longrightarrow> E e w) \<Longrightarrow> ensures P (raiseE e) Q E"
  by (simp add: ensures_def raiseE_def)

lemma returns_ensures:
  assumes "returns P m Q"
  shows "ensures P m Q E"
  by (rule ensuresI) (use returnsD [OF assms] in blast)

subsection \<open>Folder lookups return and leave the file store of the cache alone\<close>

lemma find_folder_id_body_returns:
  "returns (\<lambda>w. file_memo w = M \<and> folder_memo w = F) (find_folder_id_body ev n p)
     (\<lambda>v w'. file_memo w' = M \<and> folder_memo w' = F)"
  unfolding find_folder_id_body_def
proof (rule returns_try_except [where E = "\<lambda>e w'. file_memo w' = M \<and> folder_memo w' = F"])
  show "ensures (\<lambda>w. file_memo w = M \<and> folder_memo w = F)
     (bindE (remote ev (FilesList (folder_query n p)) (\<lambda>h. files_list ev h (folder_query n p)))
        (\<lambda>items. returnE (case items of [] \<Rightarrow> None | it # x \<Rightarrow> Some (fm_id it))))
     (\<lambda>v w'. file_memo w' = M \<and> folder_memo w' = F) (\<lambda>e w'. file_memo w' = M \<and> folder_memo w' = F)"
    by (rule ensures_bindE [where Q = "\<lambda>v w'. file_memo w' = M \<and> folder_memo w' = F"])
       (simp_all add: ensures_remote ensures_returnE)
  show "returns (\<lambda>w'. file_memo w' = M \<and> folder_memo w' = F) (returnE None)
     (\<lambda>v w'. file_memo w' = M \<and> folder_memo w' = F)" for e :: exn
    by (rule returns_returnE)
qed

lemma cache_data_folder_returns:
  assumes "\<And>F. returns (\<lambda>w. file_memo w = M \<and> folder_memo w = F) compute
      (\<lambda>v w'. file_memo w' = M \<and> folder_memo w' = F)"
  shows "returns (\<lambda>w. file_memo w = M)
      (cache_data folder_memo (\<lambda>m w. w\<lparr>folder_memo := m\<rparr>) key compute)
      (\<lambda>v w'. file_memo w' = M)"
proof (rule returnsI)
  fix w :: world assume M: "file_memo w = M"
  from returnsD [OF assms, of w "folder_memo w"] M
  obtain v w' where c: "compute w = (Inr v, w')" and M': "file_memo w' = M" by auto
  then show "\<exists>v w'. cache_data folder_memo (\<lambda>m w. w\<lparr>folder_memo := m\<rparr>) key compute w = (Inr v, w')
      \<and> file_memo w' = M"
    using M by (auto simp: cache_data_def compute_and_store_def split: option.splits)
qed

lemma find_folder_id_returns:
  "returns (\<lambda>w. file_memo w = M) (find_folder_id ev n p) (\<lambda>v w'. file_memo w' = M)"
proof (rule returnsI)
  fix w :: world assume M: "file_memo w = M"
  let ?w = "w\<lparr>lookups := lookups w @ [(n, p)]\<rparr>"
  have "file_memo ?w = M" using M by simp
  from returnsD [OF cache_data_folder_returns [OF find_folder_id_body_returns], of ?w M "(n, p)" ev n p] this
  show "\<exists>v w'. find_folder_id ev n p w = (Inr v, w') \<and> file_memo w' = M"
    by (simp add: find_folder_id_def)
qed

lemma base_step_returns:
  "returns (\<lambda>w. file_memo w = M) (base_step ev seg p) (\<lambda>v w'. file_memo w' = M)"
  unfolding base_step_def
  by (rule returns_bindE [OF find_folder_id_returns])
     (auto intro: find_folder_id_returns returns_returnE)

lemma traverse_base_returns:
  "returns (\<lambda>w. file_memo w = M) (traverse_base ev segs p) (\<lambda>v w'. file_memo w' = M)"
proof (induction segs arbitrary: p)
  case Nil
  show ?case by (rule returnsI) simp
next
  case (Cons seg segs)
  show ?case
  proof (rule returnsI)
    fix w :: world assume "file_memo w = M"
    from returnsD [OF base_step_returns this]
    obtain v w' where s: "base_step ev seg p w = (Inr v, w')" and M': "file_memo w' = M" by blast
    from returnsD [OF Cons.IH M', of v] s M'
    show "\<exists>v w'. traverse_base ev (seg # segs) p w = (Inr v, w') \<and> file_memo w' = M"
      by auto
  qed
qed

lemma traverse_path_returns:
  "returns (\<lambda>w. file_memo w = M) (traverse_path ev segs p) (\<lambda>v w'. file_memo w' = M)"
proof (induction segs arbitrary: p)
  case Nil
  show ?case by (rule returnsI) simp
next
  case (Cons seg segs)
  show ?case
  proof (rule returnsI)
    fix w :: world assume "file_memo w = M"
    from returnsD [OF find_folder_id_returns this]
    obtain v w' where s: "find_folder_id ev seg p w = (Inr v, w')" and M': "file_memo w' = M" by blast
    from returnsD [OF Cons.IH M', of v] s M'
    show "\<exists>v w'. traverse_path ev (seg # segs) p w = (Inr v, w') \<and> file_memo w' = M"
      by auto
  qed
qed


lemma returns_keeps_file_memo_if:
  assumes "\<And>M. returns (\<lambda>w. file_memo w = M) m (\<lambda>v w'. file_memo w' = M)"
  shows "returns (\<lambda>w. A \<longrightarrow> file_memo w = M) m (\<lambda>v w'. A \<longrightarrow> file_memo w' = M)"
proof (rule returnsI)
  fix w :: world assume a: "A \<longrightarrow> file_memo w = M"
  from returnsD [OF assms, of w "file_memo w"] obtain v w' where "m w = (Inr v, w')"
    and "file_memo w' = file_memo w" by auto
  with a show "\<exists>v w'. m w = (Inr v, w') \<and> (A \<longrightarrow> file_memo w' = M)" by auto
qed

subsection \<open>A download returns, with a local copy only when every step succeeded\<close>

lemma download_chunks_ensures:
  "ensures (\<lambda>w. True) (download_chunks ev i)
     (\<lambda>v w'. \<not> (\<forall>h i. isl (fst (next_chunks (media_chunks ev h i))))) (\<lambda>e w'. True)"
proof (rule ensuresI)
  fix w :: world
  obtain r n where nc: "next_chunks (media_chunks ev (requests w) i) = (r, n)"
    by (cases "next_chunks (media_chunks ev (requests w) i)")
  show "(\<exists>v w'. download_chunks ev i w = (Inr v, w') \<and>
            \<not> (\<forall>h i. isl (fst (next_chunks (media_chunks ev h i))))) \<or>
        (\<exists>e w'. download_chunks ev i w = (Inl e, w') \<and> True)"
  proof (cases r)
    case (Inl e)
    with nc show ?thesis by (simp add: download_chunks_def)
  next
    case (Inr u)
    with nc have "\<not> isl (fst (next_chunks (media_chunks ev (requests w) i)))" by simp
    then have "\<not> (\<forall>h i. isl (fst (next_chunks (media_chunks ev h i))))" by blast
    with nc Inr show ?thesis by (simp add: download_chunks_def)
  qed
qed

lemma download_body_ensures:
  "ensures (\<lambda>w. True)
     (bindE (remote ev (FilesGet i) (\<lambda>h. files_get ev h i)) (\<lambda>meta.
      bindE (case fi_name meta of
               Some n \<Rightarrow> returnE n
             | None \<Rightarrow> (case hint of Text h \<Rightarrow> returnE h | Blank \<Rightarrow> raiseE TypeError)) (\<lambda>nm.
      bindE (\<lambda>w. (make_temp ev (requests w) (splitext_ext nm), w)) (\<lambda>tmp.
      bindE (download_chunks ev i) (\<lambda>_.
      returnE (Some tmp, fi_mime meta, fi_name meta, fi_link meta))))))
     (\<lambda>d w'. download_ok d \<and> \<not> downloads_fail ev) (\<lambda>e w'. True)"
proof (rule ensures_bindE [where Q = "\<lambda>meta w'. \<not> (\<forall>h i. isl (files_get ev h i))"])
  show "ensures (\<lambda>w. True) (remote ev (FilesGet i) (\<lambda>h. files_get ev h i))
     (\<lambda>meta w'. \<not> (\<forall>h i. isl (files_get ev h i))) (\<lambda>e w'. True)"
  proof (rule ensures_remote)
    fix w :: world and v assume "files_get ev (requests w) i = Inr v"
    then have "\<not> isl (files_get ev (requests w) i)" by simp
    then show "\<not> (\<forall>h i. isl (files_get ev h i))" by blast
  qed simp
next
  fix meta
  let ?A = "\<not> (\<forall>h i. isl (files_get ev h i))"
  show "ensures (\<lambda>w'. ?A)
     (bindE (case fi_name meta of
               Some n \<Rightarrow> returnE n
             | None \<Rightarrow> (case hint of Text h \<Rightarrow> returnE h | Blank \<Rightarrow> raiseE TypeError)) (\<lambda>nm.
      bindE (\<lambda>w. (make_temp ev (requests w) (splitext_ext nm), w)) (\<lambda>tmp.
      bindE (download_chunks ev i) (\<lambda>_.
      returnE (Some tmp, fi_mime meta, fi_name meta, fi_link meta)))))
     (\<lambda>d w'. download_ok d \<and> \<not> downloads_fail ev) (\<lambda>e w'. True)"
  proof (rule ensures_bindE [where Q = "\<lambda>nm w'. ?A"])
    show "ensures (\<lambda>w'. ?A)
       (case fi_name meta of
          Some n \<Rightarrow> returnE n
        | None \<Rightarrow> (case hint of Text h \<Rightarrow> returnE h | Blank \<Rightarrow> raiseE TypeError))
       (\<lambda>nm w'. ?A) (\<lambda>e w'. True)"
      by (cases "fi_name meta"; cases hint) (simp_all add: ensures_returnE ensures_raiseE)
  next
    fix nm
    let ?B = "\<not> (\<forall>h s. isl (make_temp ev h s))"
    show "ensures (\<lambda>w'. ?A)
       (bindE (\<lambda>w. (make_temp ev (requests w) (splitext_ext nm), w)) (\<lambda>tmp.
        bindE (download_chunks ev i) (\<lambda>_.
        returnE (Some tmp, fi_mime meta, fi_name meta, fi_link meta))))
       (\<lambda>d w'. download_ok d \<and> \<not> downloads_fail ev) (\<lambda>e w'. True)"
    proof (rule ensures_bindE [where Q = "\<lambda>tmp w'. ?A \<and> ?B"])
      show "ensures (\<lambda>w'. ?A) (\<lambda>w. (make_temp ev (requests w) (splitext_ext nm), w))
         (\<lambda>tmp w'. ?A \<and> ?B) (\<lambda>e w'. True)"
      proof (rule ensuresI)
        fix w :: world assume a: ?A
        show "(\<exists>v w'. (make_temp ev (requests w) (splitext_ext nm), w) = (Inr v, w') \<and> ?A \<and> ?B) \<or>
              (\<exists>e w'. (make_temp ev (requests w) (splitext_ext nm), w) = (Inl e, w') \<and> True)"
        proof (cases "make_temp ev (requests w) (splitext_ext nm)")
          case (Inl e)
          then show ?thesis by simp
        next
          case (Inr v)
          then have "\<not> isl (make_temp ev (requests w) (splitext_ext nm))" by simp
          then have ?B by blast
          with a Inr show ?thesis by simp
        qed
      qed
    next
      fix tmp
      let ?C = "\<not> (\<forall>h i. isl (fst (next_chunks (media_chunks ev h i))))"
      show "ensures (\<lambda>w'. ?A \<and> ?B)
         (bindE (download_chunks ev i) (\<lambda>_.
          returnE (Some tmp, fi_mime meta, fi_name meta, fi_link meta)))
         (\<lambda>d w'. download_ok d \<and> \<not> downloads_fail ev) (\<lambda>e w'. True)"
      proof (rule ensures_bindE [where Q = "\<lambda>u w'. ?A \<and> ?B \<and> ?C"])
        show "ensures (\<lambda>w'. ?A \<and> ?B) (download_chunks ev i) (\<lambda>u w'. ?A \<and> ?B \<and> ?C) (\<lambda>e w'. True)"
        proof (rule ensuresI)
          fix w :: world assume ab: "?A \<and> ?B"
          from ensuresD [OF download_chunks_ensures [of ev i] TrueI, of w] ab
          show "(\<exists>v w'. download_chunks ev i w = (Inr v, w') \<and> ?A \<and> ?B \<and> ?C) \<or>
                (\<exists>e w'. download_chunks ev i w = (Inl e, w') \<and> True)"
            by blast
        qed
      next
        fix u :: unit
        show "ensures (\<lambda>w'. ?A \<and> ?B \<and> ?C)
           (returnE (Some tmp, fi_mime meta, fi_name meta, fi_link meta))
           (\<lambda>d w'. download_ok d \<and> \<not> downloads_fail ev) (\<lambda>e w'. True)"
          by (rule ensures_returnE) (simp add: download_ok_def downloads_fail_def)
      qed
    qed
  qed
qed

lemma download_file_to_temp_returns:
  "returns (\<lambda>w. True) (download_file_to_temp ev i hint)
     (\<lambda>d w'. download_ok d \<and> (downloads_fail ev \<longrightarrow> fst d = None))"
  unfolding download_file_to_temp_def
proof (rule returns_try_except [where E = "\<lambda>e w'. True"])
  show "ensures (\<lambda>w. True)
     (bindE (remote ev (FilesGet i) (\<lambda>h. files_get ev h i)) (\<lambda>meta.
      bindE (case fi_name meta of
               Some n \<Rightarrow> returnE n
             | None \<Rightarrow> (case hint of Text h \<Rightarrow> returnE h | Blank \<Rightarrow> raiseE TypeError)) (\<lambda>nm.
      bindE (\<lambda>w. (make_temp ev (requests w) (splitext_ext nm), w)) (\<lambda>tmp.
      bindE (download_chunks ev i) (\<lambda>_.
      returnE (Some tmp, fi_mime meta, fi_name meta, fi_link meta))))))
     (\<lambda>d w'. download_ok d \<and> (downloads_fail ev \<longrightarrow> fst d = None)) (\<lambda>e w'. True)"
    proof (rule ensuresI)
    fix w :: world
    from ensuresD [OF download_body_ensures [of ev i hint] TrueI, of w]
    show "(\<exists>v w'. bindE (remote ev (FilesGet i) (\<lambda>h. files_get ev h i)) (\<lambda>meta.
      bindE (case fi_name meta of
               Some n \<Rightarrow> returnE n
             | None \<Rightarrow> (case hint of Text h \<Rightarrow> returnE h | Blank \<Rightarrow> raiseE TypeError)) (\<lambda>nm.
      bindE (\<lambda>w. (make_temp ev (requests w) (splitext_ext nm), w)) (\<lambda>tmp.
      bindE (download_chunks ev i) (\<lambda>_.
      returnE (Some tmp, fi_mime meta, fi_name meta, fi_link meta))))) w = (Inr v, w') \<and>
         download_ok v \<and> (downloads_fail ev \<longrightarrow> fst v = None)) \<or>
      (\<exists>e w'. bindE (remote ev (FilesGet i) (\<lambda>h. files_get ev h i)) (\<lambda>meta.
      bindE (case fi_name meta of
               Some n \<Rightarrow> returnE n
             | None \<Rightarrow> (case hint of Text h \<Rightarrow> returnE h | Blank \<Rightarrow> raiseE TypeError)) (\<lambda>nm.
      bindE (\<lambda>w. (make_temp ev (requests w) (splitext_ext nm), w)) (\<lambda>tmp.
      bindE (download_chunks ev i) (\<lambda>_.
      returnE (Some tmp, fi_mime meta, fi_name meta, fi_link meta))))) w = (Inl e, w') \<and> True)"
      by blast
  qed
  show "returns (\<lambda>w'. True) (returnE (None, None, None, None))
     (\<lambda>d w'. download_ok d \<and> (downloads_fail ev \<longrightarrow> fst d = None))" for e :: exn
    by (rule returns_returnE) (simp add: download_ok_def)
qed


lemma returns_weaken:
  assumes "returns P m Q" and "\<And>w. P' w \<Longrightarrow> P w" and "\<And>v w. Q v w \<Longrightarrow> Q' v w"
  shows "returns P' m Q'"
proof (rule returnsI)
  fix w assume "P' w"
  then have "P w" by (rule assms(2))
  from returnsD [OF assms(1) this] assms(3) show "\<exists>v w'. m w = (Inr v, w') \<and> Q' v w'" by blast
qed

subsection \<open>The searches for the file\<close>

lemma get_file_in_folder_body_returns:
  "returns (\<lambda>w. True) (get_file_in_folder_body ev par fn) (\<lambda>v w'. lookups_fail ev \<longrightarrow> v = None)"
  unfolding get_file_in_folder_body_def
proof (rule returns_try_except [where E = "\<lambda>e w'. True"])
  show "ensures (\<lambda>w. True)
     (case fn of
        Blank \<Rightarrow> raiseE AttributeError
      | Text f \<Rightarrow>
          bindE (remote ev (FilesList (file_query par f)) (\<lambda>h. files_list ev h (file_query par f)))
            (\<lambda>items. returnE (case items of [] \<Rightarrow> None | it # x \<Rightarrow> Some it)))
     (\<lambda>v w'. lookups_fail ev \<longrightarrow> v = None) (\<lambda>e w'. True)"
  proof (cases fn)
    case Blank
    then show ?thesis by (simp add: ensures_raiseE)
  next
    case (Text f)
    have "ensures (\<lambda>w. True)
       (bindE (remote ev (FilesList (file_query par f)) (\<lambda>h. files_list ev h (file_query par f)))
          (\<lambda>items. returnE (case items of [] \<Rightarrow> None | it # x \<Rightarrow> Some it)))
       (\<lambda>v w'. lookups_fail ev \<longrightarrow> v = None) (\<lambda>e w'. True)"
    proof (rule ensures_bindE [where Q = "\<lambda>items w'. \<not> lookups_fail ev"])
      show "ensures (\<lambda>w. True)
         (remote ev (FilesList (file_query par f)) (\<lambda>h. files_list ev h (file_query par f)))
         (\<lambda>items w'. \<not> lookups_fail ev) (\<lambda>e w'. True)"
      proof (rule ensures_remote)
        fix w :: world and v assume "files_list ev (requests w) (file_query par f) = Inr v"
        then have "\<not> isl (files_list ev (requests w) (file_query par f))" by simp
        then show "\<not> lookups_fail ev" unfolding lookups_fail_def by blast
      qed simp
    qed (rule ensures_returnE, simp)
    with Text show ?thesis by simp
  qed
  show "returns (\<lambda>w'. True) (returnE None) (\<lambda>v w'. lookups_fail ev \<longrightarrow> v = None)" for e :: exn
    by (rule returns_returnE) simp
qed

lemma get_file_in_folder_returns:
  "returns (\<lambda>w. (A \<and> lookups_fail ev) \<longrightarrow> file_memo w = Map.empty) (get_file_in_folder ev par fn)
     (\<lambda>v w'. (A \<and> lookups_fail ev) \<longrightarrow> v = None)"
proof (rule returnsI)
  fix w :: world assume pre: "(A \<and> lookups_fail ev) \<longrightarrow> file_memo w = Map.empty"
  from returnsD [OF get_file_in_folder_body_returns [of ev par fn] TrueI, of w]
  obtain v w' where b: "get_file_in_folder_body ev par fn w = (Inr v, w')"
    and v: "(A \<and> lookups_fail ev) \<longrightarrow> v = None" by blast
  show "\<exists>v w'. get_file_in_folder ev par fn w = (Inr v, w') \<and> ((A \<and> lookups_fail ev) \<longrightarrow> v = None)"
  proof (cases "file_memo w (par, fn)")
    case None
    with b v show ?thesis
      by (simp add: get_file_in_folder_def cache_data_def compute_and_store_def)
  next
    case (Some tv)
    with pre have nf: "\<not> (A \<and> lookups_fail ev)" by auto
    obtain t u where "tv = (t, u)" by (cases tv)
    with Some b nf show ?thesis
      by (auto simp: get_file_in_folder_def cache_data_def compute_and_store_def)
  qed
qed

lemma search_in_folder_returns:
  "returns (\<lambda>w. (A \<and> lookups_fail ev) \<longrightarrow> file_memo w = Map.empty) (search_in_folder ev par fn)
     (\<lambda>res w'. outcome_ok res \<and> (downloads_fail ev \<longrightarrow> fst (snd res) = None)
        \<and> ((A \<and> lookups_fail ev) \<longrightarrow> res = not_found))"
proof (cases "truthy par")
  case False
  then show ?thesis
    unfolding search_in_folder_def
    by (simp add: returns_returnE outcome_ok_def download_ok_def not_found_def)
next
  case True
  have "returns (\<lambda>w. (A \<and> lookups_fail ev) \<longrightarrow> file_memo w = Map.empty)
     (bindE (get_file_in_folder ev (the par) fn) (\<lambda>file_meta.
        case file_meta of
          None \<Rightarrow> returnE not_found
        | Some fm \<Rightarrow> bindE (download_file_to_temp ev (fm_id fm) fn) (\<lambda>d. returnE (Some fm, d))))
     (\<lambda>res w'. outcome_ok res \<and> (downloads_fail ev \<longrightarrow> fst (snd res) = None)
        \<and> ((A \<and> lookups_fail ev) \<longrightarrow> res = not_found))"
  proof (rule returns_bindE [OF get_file_in_folder_returns])
    fix file_meta :: "file_meta option"
    show "returns (\<lambda>w'. (A \<and> lookups_fail ev) \<longrightarrow> file_meta = None)
       (case file_meta of
          None \<Rightarrow> returnE not_found
        | Some fm \<Rightarrow> bindE (download_file_to_temp ev (fm_id fm) fn) (\<lambda>d. returnE (Some fm, d)))
       (\<lambda>res w'. outcome_ok res \<and> (downloads_fail ev \<longrightarrow> fst (snd res) = None)
          \<and> ((A \<and> lookups_fail ev) \<longrightarrow> res = not_found))"
    proof (cases file_meta)
      case None
      then show ?thesis
        by (simp add: returns_returnE outcome_ok_def download_ok_def not_found_def)
    next
      case (Some fm)
      have "returns (\<lambda>w'. \<not> (A \<and> lookups_fail ev))
         (bindE (download_file_to_temp ev (fm_id fm) fn) (\<lambda>d. returnE (Some fm, d)))
         (\<lambda>res w'. outcome_ok res \<and> (downloads_fail ev \<longrightarrow> fst (snd res) = None)
            \<and> ((A \<and> lookups_fail ev) \<longrightarrow> res = not_found))"
      proof (rule returns_bindE [where Q = "\<lambda>d w'. \<not> (A \<and> lookups_fail ev) \<and> download_ok d
            \<and> (downloads_fail ev \<longrightarrow> fst d = None)"])
        show "returns (\<lambda>w'. \<not> (A \<and> lookups_fail ev)) (download_file_to_temp ev (fm_id fm) fn)
           (\<lambda>d w'. \<not> (A \<and> lookups_fail ev) \<and> download_ok d \<and> (downloads_fail ev \<longrightarrow> fst d = None))"
        proof (rule returnsI)
          fix w :: world assume "\<not> (A \<and> lookups_fail ev)"
          with returnsD [OF download_file_to_temp_returns [of ev "fm_id fm" fn] TrueI, of w]
          show "\<exists>v w'. download_file_to_temp ev (fm_id fm) fn w = (Inr v, w') \<and>
              \<not> (A \<and> lookups_fail ev) \<and> download_ok v \<and> (downloads_fail ev \<longrightarrow> fst v = None)"
            by blast
        qed
      qed (rule returns_returnE, auto simp: outcome_ok_def)
      with Some show ?thesis by simp
    qed
  qed
  with True show ?thesis by (simp add: search_in_folder_def)
qed

lemma fallback_search_returns:
  "returns (\<lambda>w. True) (fallback_search ev name res)
     (\<lambda>res' w'. (outcome_ok res \<longrightarrow> outcome_ok res')
        \<and> (downloads_fail ev \<longrightarrow> fst (snd res) = None \<longrightarrow> fst (snd res') = None)
        \<and> (lookups_fail ev \<longrightarrow> res' = res))"
  (is "returns _ _ ?Q")
proof (cases "fst res \<noteq> None")
  case True
  then show ?thesis by (simp add: fallback_search_def returns_returnE)
next
  case False
  have "returns (\<lambda>w. True)
     (try_except
        (case name of
           Blank \<Rightarrow> raiseE AttributeError
         | Text n \<Rightarrow>
             bindE (remote ev (FilesList (name_query n)) (\<lambda>h. files_list ev h (name_query n))) (\<lambda>items.
               case items of
                 [] \<Rightarrow> returnE res
               | it # _ \<Rightarrow> bindE (download_file_to_temp ev (fm_id it) name) (\<lambda>d. returnE (Some it, d))))
        (\<lambda>e. returnE res)) ?Q"
  proof (rule returns_try_except [where E = "\<lambda>e w'. True"])
    show "returns (\<lambda>w'. True) (returnE res) ?Q" for e :: exn
      by (rule returns_returnE) simp
    show "ensures (\<lambda>w. True)
       (case name of
          Blank \<Rightarrow> raiseE AttributeError
        | Text n \<Rightarrow>
            bindE (remote ev (FilesList (name_query n)) (\<lambda>h. files_list ev h (name_query n))) (\<lambda>items.
              case items of
                [] \<Rightarrow> returnE res
              | it # _ \<Rightarrow> bindE (download_file_to_temp ev (fm_id it) name) (\<lambda>d. returnE (Some it, d))))
       ?Q (\<lambda>e w'. True)"
    proof (cases name)
      case Blank
      then show ?thesis by (simp add: ensures_raiseE)
    next
      case (Text n)
      have "ensures (\<lambda>w. True)
         (bindE (remote ev (FilesList (name_query n)) (\<lambda>h. files_list ev h (name_query n))) (\<lambda>items.
            case items of
              [] \<Rightarrow> returnE res
            | it # _ \<Rightarrow> bindE (download_file_to_temp ev (fm_id it) (Text n)) (\<lambda>d. returnE (Some it, d))))
         ?Q (\<lambda>e w'. True)"
      proof (rule ensures_bindE [where Q = "\<lambda>items w'. \<not> lookups_fail ev"])
        show "ensures (\<lambda>w. True)
           (remote ev (FilesList (name_query n)) (\<lambda>h. files_list ev h (name_query n)))
           (\<lambda>items w'. \<not> lookups_fail ev) (\<lambda>e w'. True)"
        proof (rule ensures_remote)
          fix w :: world and v assume "files_list ev (requests w) (name_query n) = Inr v"
          then have "\<not> isl (files_list ev (requests w) (name_query n))" by simp
          then show "\<not> lookups_fail ev" unfolding lookups_fail_def by blast
        qed simp
      next
        fix items :: "file_meta list"
        show "ensures (\<lambda>w'. \<not> lookups_fail ev)
           (case items of
              [] \<Rightarrow> returnE res
            | it # _ \<Rightarrow> bindE (download_file_to_temp ev (fm_id it) (Text n)) (\<lambda>d. returnE (Some it, d)))
           ?Q (\<lambda>e w'. True)"
        proof (cases items)
          case Nil
          then show ?thesis by (simp add: ensures_returnE)
        next
          case (Cons it rest)
          have "returns (\<lambda>w'. \<not> lookups_fail ev)
             (bindE (download_file_to_temp ev (fm_id it) (Text n)) (\<lambda>d. returnE (Some it, d))) ?Q"
          proof (rule returns_bindE [where Q = "\<lambda>d w'. \<not> lookups_fail ev \<and> download_ok d
                \<and> (downloads_fail ev \<longrightarrow> fst d = None)"])
            show "returns (\<lambda>w'. \<not> lookups_fail ev) (download_file_to_temp ev (fm_id it) (Text n))
               (\<lambda>d w'. \<not> lookups_fail ev \<and> download_ok d \<and> (downloads_fail ev \<longrightarrow> fst d = None))"
            proof (rule returnsI)
              fix w :: world assume "\<not> lookups_fail ev"
              with returnsD [OF download_file_to_temp_returns [of ev "fm_id it" "Text n"] TrueI, of w]
              show "\<exists>v w'. download_file_to_temp ev (fm_id it) (Text n) w = (Inr v, w') \<and>
                  \<not> lookups_fail ev \<and> download_ok v \<and> (downloads_fail ev \<longrightarrow> fst v = None)"
                by blast
            qed
          qed (rule returns_returnE, simp add: outcome_ok_def)
          with Cons show ?thesis by (simp add: returns_ensures)
        qed
      qed
      with Text show ?thesis by simp
    qed
  qed
  with False show ?thesis by (simp add: fallback_search_def)
qed


lemma fallback_search_keeps:
  "returns (\<lambda>w. outcome_ok res \<and> (downloads_fail ev \<longrightarrow> fst (snd res) = None)
        \<and> ((A \<and> lookups_fail ev) \<longrightarrow> res = not_found))
     (fallback_search ev name res)
     (\<lambda>res' w'. outcome_ok res' \<and> (downloads_fail ev \<longrightarrow> fst (snd res') = None)
        \<and> ((A \<and> lookups_fail ev) \<longrightarrow> res' = not_found))"
proof (rule returnsI)
  fix w :: world
  assume "outcome_ok res \<and> (downloads_fail ev \<longrightarrow> fst (snd res) = None)
        \<and> ((A \<and> lookups_fail ev) \<longrightarrow> res = not_found)"
  moreover from returnsD [OF fallback_search_returns [of ev name res] TrueI, of w]
  obtain v w' where "fallback_search ev name res w = (Inr v, w')"
    and "outcome_ok res \<longrightarrow> outcome_ok v"
    and "downloads_fail ev \<longrightarrow> fst (snd res) = None \<longrightarrow> fst (snd v) = None"
    and "lookups_fail ev \<longrightarrow> v = res"
    by (elim exE conjE)
  ultimately show "\<exists>v w'. fallback_search ev name res w = (Inr v, w') \<and>
      outcome_ok v \<and> (downloads_fail ev \<longrightarrow> fst (snd v) = None)
        \<and> ((A \<and> lookups_fail ev) \<longrightarrow> v = not_found)"
    by auto
qed

lemma resolve_returns:
  "returns (\<lambda>w. (A \<and> lookups_fail ev) \<longrightarrow> file_memo w = Map.empty) (resolve ev r)
     (\<lambda>res w'. outcome_ok res \<and> (downloads_fail ev \<longrightarrow> fst (snd res) = None)
        \<and> ((A \<and> lookups_fail ev) \<longrightarrow> res = not_found))"
  unfolding resolve_def Let_def
proof (rule returns_bindE [OF returns_keeps_file_memo_if [OF traverse_base_returns]])
  fix p0 :: "string option"
  show "returns (\<lambda>w'. (A \<and> lookups_fail ev) \<longrightarrow> file_memo w' = Map.empty)
     (bindE (if \<not> truthy p0 then find_folder_id ev (base_segments ! 0) None else returnE p0) (\<lambda>p1.
      bindE (if truthy p1 then traverse_path ev (butlast (file_path_segments r)) p1 else returnE p1) (\<lambda>parent_id.
      bindE (search_in_folder ev parent_id
               (if file_path_segments r \<noteq> [] then Text (last (file_path_segments r)) else original_name r)) (\<lambda>res1.
      bindE (fallback_search ev
               (if file_path_segments r \<noteq> [] then Text (last (file_path_segments r)) else original_name r) res1) (\<lambda>res2.
      fallback_search ev (Text (py_str (original_name r))) res2)))))
     (\<lambda>res w'. outcome_ok res \<and> (downloads_fail ev \<longrightarrow> fst (snd res) = None)
        \<and> ((A \<and> lookups_fail ev) \<longrightarrow> res = not_found))"
  proof (rule returns_bindE [where Q = "\<lambda>v w'. (A \<and> lookups_fail ev) \<longrightarrow> file_memo w' = Map.empty"])
    show "returns (\<lambda>w'. (A \<and> lookups_fail ev) \<longrightarrow> file_memo w' = Map.empty)
       (if \<not> truthy p0 then find_folder_id ev (base_segments ! 0) None else returnE p0)
       (\<lambda>v w'. (A \<and> lookups_fail ev) \<longrightarrow> file_memo w' = Map.empty)"
      by (cases "truthy p0")
         (simp_all add: returns_returnE returns_keeps_file_memo_if [OF find_folder_id_returns])
  next
    fix p1 :: "string option"
    show "returns (\<lambda>w'. (A \<and> lookups_fail ev) \<longrightarrow> file_memo w' = Map.empty)
       (bindE (if truthy p1 then traverse_path ev (butlast (file_path_segments r)) p1 else returnE p1) (\<lambda>parent_id.
        bindE (search_in_folder ev parent_id
                 (if file_path_segments r \<noteq> [] then Text (last (file_path_segments r)) else original_name r)) (\<lambda>res1.
        bindE (fallback_search ev
                 (if file_path_segments r \<noteq> [] then Text (last (file_path_segments r)) else original_name r) res1) (\<lambda>res2.
        fallback_search ev (Text (py_str (original_name r))) res2))))
       (\<lambda>res w'. outcome_ok res \<and> (downloads_fail ev \<longrightarrow> fst (snd res) = None)
          \<and> ((A \<and> lookups_fail ev) \<longrightarrow> res = not_found))"
    proof (rule returns_bindE [where Q = "\<lambda>v w'. (A \<and> lookups_fail ev) \<longrightarrow> file_memo w' = Map.empty"])
      show "returns (\<lambda>w'. (A \<and> lookups_fail ev) \<longrightarrow> file_memo w' = Map.empty)
         (if truthy p1 then traverse_path ev (butlast (file_path_segments r)) p1 else returnE p1)
         (\<lambda>v w'. (A \<and> lookups_fail ev) \<longrightarrow> file_memo w' = Map.empty)"
        by (cases "truthy p1")
           (simp_all add: returns_returnE returns_keeps_file_memo_if [OF traverse_path_returns])
    next
      fix parent_id :: "string option"
      show "returns (\<lambda>w'. (A \<and> lookups_fail ev) \<longrightarrow> file_memo w' = Map.empty)
         (bindE (search_in_folder ev parent_id
                   (if file_path_segments r \<noteq> [] then Text (last (file_path_segments r)) else original_name r)) (\<lambda>res1.
          bindE (fallback_search ev
                   (if file_path_segments r \<noteq> [] then Text (last (file_path_segments r)) else original_name r) res1) (\<lambda>res2.
          fallback_search ev (Text (py_str (original_name r))) res2)))
         (\<lambda>res w'. outcome_ok res \<and> (downloads_fail ev \<longrightarrow> fst (snd res) = None)
            \<and> ((A \<and> lookups_fail ev) \<longrightarrow> res = not_found))"
        by (rule returns_bindE [OF search_in_folder_returns])
           (rule returns_bindE [OF fallback_search_keeps], rule fallback_search_keeps)
    qed
  qed
qed

section \<open>The resolver\<close>

lemma lookups_fail_unreachable: "lookups_fail unreachable"
  by (simp add: lookups_fail_def unreachable_def)

lemma downloads_fail_unreachable: "downloads_fail unreachable"
  by (simp add: downloads_fail_def unreachable_def)

lemma get_file_from_drive_hit:
  "cache (cache_key r) = Some res \<Longrightarrow> get_file_from_drive ev r cache w = (Inr (res, cache), w)"
  by (simp add: get_file_from_drive_def returnE_def)

lemma get_file_from_drive_miss:
  assumes "cache (cache_key r) = None"
  shows "\<exists>res w'. get_file_from_drive ev r cache w = (Inr (res, cache(cache_key r \<mapsto> res)), w')
     \<and> resolve ev r w = (Inr res, w')
     \<and> outcome_ok res \<and> (downloads_fail ev \<longrightarrow> fst (snd res) = None)
     \<and> (lookups_fail ev \<and> file_memo w = Map.empty \<longrightarrow> res = not_found)"
proof -
  have "(file_memo w = Map.empty \<and> lookups_fail ev) \<longrightarrow> file_memo w = Map.empty" by simp
  from returnsD [OF resolve_returns [of "file_memo w = Map.empty" ev r], of w, OF this]
  obtain res w' where "resolve ev r w = (Inr res, w')" and "outcome_ok res"
    and "downloads_fail ev \<longrightarrow> fst (snd res) = None"
    and "(file_memo w = Map.empty \<and> lookups_fail ev) \<longrightarrow> res = not_found"
    by (elim exE conjE)
  with assms show ?thesis
    by (auto simp: get_file_from_drive_def bindE_def returnE_def)
qed

lemma body_runs_cached:
  "cache k \<noteq> None \<Longrightarrow> body_runs ev k rs cache w = 0"
proof (induction rs arbitrary: cache w)
  case Nil
  show ?case by simp
next
  case (Cons r rs)
  show ?case
  proof (cases "cache (cache_key r)")
    case (Some res)
    with Cons show ?thesis by (simp add: get_file_from_drive_hit)
  next
    case None
    from get_file_from_drive_miss [where cache = cache and r = r and ev = ev and w = w, OF None]
    obtain res w' where g: "get_file_from_drive ev r cache w = (Inr (res, cache(cache_key r \<mapsto> res)), w')"
      by (elim exE conjE)
    from Cons.prems None have ne: "cache_key r \<noteq> k" by auto
    with Cons.prems have "(cache(cache_key r \<mapsto> res)) k \<noteq> None" by simp
    then have ih: "body_runs ev k rs (cache(cache_key r \<mapsto> res)) w' = 0"
      by (rule Cons.IH)
    show ?thesis using ne by (simp add: g ih)
  qed
qed

lemma body_runs_le_1: "body_runs ev k rs cache w \<le> 1"
proof (induction rs arbitrary: cache w)
  case Nil
  show ?case by simp
next
  case (Cons r rs)
  show ?case
  proof (cases "cache (cache_key r)")
    case (Some res)
    with Cons [of cache w] show ?thesis by (simp add: get_file_from_drive_hit)
  next
    case None
    from get_file_from_drive_miss [where cache = cache and r = r and ev = ev and w = w, OF None]
    obtain res w' where g: "get_file_from_drive ev r cache w = (Inr (res, cache(cache_key r \<mapsto> res)), w')"
      by (elim exE conjE)
    show ?thesis
    proof (cases "cache_key r = k")
      case True
      then have "(cache(cache_key r \<mapsto> res)) k \<noteq> None" by simp
      then have "body_runs ev k rs (cache(cache_key r \<mapsto> res)) w' = 0"
        by (rule body_runs_cached)
      then show ?thesis by (simp add: g)
    next
      case False
      have "body_runs ev k rs (cache(cache_key r \<mapsto> res)) w' \<le> 1"
        by (rule Cons)
      then show ?thesis using False by (simp add: g)
    qed
  qed
qed


text \<open>
  Claim C5. For every row, cache, world and surroundings the resolver returns a
  tuple and raises nothing, and so do the folder lookup and the download on their
  own. After a miss in the cache the tuple is fully negative, or holds the
  metadata of a file whose download failed and nothing else, or is a complete
  resolution. When no download can complete there is no local copy and the
  preview reports the file as not found; when every Drive query fails (and
  nothing is left in the store of the file lookup) the tuple is fully negative.
\<close>

theorem get_file_from_drive_never_raises:
  "(\<exists>res cache' w'. get_file_from_drive ev r cache w = (Inr (res, cache'), w')
      \<and> (cache (cache_key r) = None \<longrightarrow>
           outcome_ok res
         \<and> (downloads_fail ev \<longrightarrow> fst (snd res) = None \<and> \<not> found res)
         \<and> (lookups_fail ev \<and> file_memo w = Map.empty \<longrightarrow> res = not_found)))
   \<and> (\<exists>v w'. find_folder_id ev folder_name parent_id w = (Inr v, w'))
   \<and> (\<exists>d w'. download_file_to_temp ev file_id hint w = (Inr d, w') \<and> download_ok d
         \<and> (downloads_fail ev \<longrightarrow> d = (None, None, None, None)))"
proof (intro conjI)
  show "\<exists>res cache' w'. get_file_from_drive ev r cache w = (Inr (res, cache'), w')
      \<and> (cache (cache_key r) = None \<longrightarrow>
           outcome_ok res
         \<and> (downloads_fail ev \<longrightarrow> fst (snd res) = None \<and> \<not> found res)
         \<and> (lookups_fail ev \<and> file_memo w = Map.empty \<longrightarrow> res = not_found))"
  proof (cases "cache (cache_key r)")
    case None
    from get_file_from_drive_miss [where cache = cache and r = r and ev = ev and w = w, OF None]
    obtain res w' where "get_file_from_drive ev r cache w = (Inr (res, cache(cache_key r \<mapsto> res)), w')"
      and "outcome_ok res" and "downloads_fail ev \<longrightarrow> fst (snd res) = None"
      and "lookups_fail ev \<and> file_memo w = Map.empty \<longrightarrow> res = not_found"
      by (elim exE conjE)
    moreover have "fst (snd res) = None \<Longrightarrow> \<not> found res"
      by (cases res) (auto simp: found_def)
    ultimately show ?thesis by blast
  next
    case (Some res)
    then have "get_file_from_drive ev r cache w = (Inr (res, cache), w)"
      by (rule get_file_from_drive_hit)
    with Some show ?thesis
      by (intro exI [of _ res] exI [of _ cache] exI [of _ w]) simp
  qed
  show "\<exists>v w'. find_folder_id ev folder_name parent_id w = (Inr v, w')"
    using returnsD [OF find_folder_id_returns [of "file_memo w" ev folder_name parent_id], of w]
    by blast
  from returnsD [OF download_file_to_temp_returns [of ev file_id hint] TrueI, of w]
  obtain d w' where d: "download_file_to_temp ev file_id hint w = (Inr d, w')"
    and ok: "download_ok d" and f: "downloads_fail ev \<longrightarrow> fst d = None"
    by (elim exE conjE)
  have "d = (None, None, None, None)" if "fst d = None"
    using that ok by (cases d) (auto simp: download_ok_def)
  with d ok f show "\<exists>d w'. download_file_to_temp ev file_id hint w = (Inr d, w') \<and> download_ok d
         \<and> (downloads_fail ev \<longrightarrow> d = (None, None, None, None))"
    by blast
qed

theorem get_file_from_drive_never_raises_witness:
  "fst (get_file_from_drive unreachable example_row Map.empty initial_world)
     = Inr (not_found, [cache_key example_row \<mapsto> not_found])
   \<and> \<not> found not_found"
proof -
  have memo: "file_memo initial_world = Map.empty" by (simp add: initial_world_def)
  from get_file_from_drive_never_raises [of unreachable example_row Map.empty initial_world, THEN conjunct1]
  obtain res cache' w' where
    g: "get_file_from_drive unreachable example_row Map.empty initial_world = (Inr (res, cache'), w')"
    and h: "(None :: resolution option) = None \<longrightarrow>
           outcome_ok res
         \<and> (downloads_fail unreachable \<longrightarrow> fst (snd res) = None \<and> \<not> found res)
         \<and> (lookups_fail unreachable \<and> file_memo initial_world = Map.empty \<longrightarrow> res = not_found)"
    by (elim exE conjE)
  from h memo lookups_fail_unreachable downloads_fail_unreachable
  have res: "res = not_found" and nf: "\<not> found res" by blast+
  from g res have "cache' = [cache_key example_row \<mapsto> not_found]"
    by (auto simp: get_file_from_drive_def bindE_def returnE_def split: prod.splits sum.splits)
  with g res nf show ?thesis by simp
qed

text \<open>
  Claim C4. A resolution leaves its tuple in the cache under the row's key and
  changes no other entry; with that entry in the cache, resolving a row of that
  key again returns the identical tuple, whatever the surroundings answer and
  also when the tuple is negative, and changes nothing in the world: no request
  is made. In a walk through any rows the part of the resolver behind the cache
  runs at most once for a key, and not at all for a key already in the cache.
\<close>

theorem resolution_is_cached:
  "(get_file_from_drive ev r cache w = (Inr (res, cache1), w1) \<longrightarrow>
      cache1 (cache_key r) = Some res
    \<and> (\<forall>k v. cache k = Some v \<longrightarrow> cache1 k = Some v)
    \<and> (\<forall>ev' r' cache2 w2.
          cache_key r' = cache_key r \<and> cache2 (cache_key r) = Some res \<longrightarrow>
          get_file_from_drive ev' r' cache2 w2 = (Inr (res, cache2), w2)))
   \<and> body_runs ev k rs cache w \<le> 1
   \<and> (cache k \<noteq> None \<longrightarrow> body_runs ev k rs cache w = 0)"
proof (intro conjI impI)
  assume g: "get_file_from_drive ev r cache w = (Inr (res, cache1), w1)"
  have a: "cache1 (cache_key r) = Some res \<and> (\<forall>k v. cache k = Some v \<longrightarrow> cache1 k = Some v)"
  proof (cases "cache (cache_key r)")
    case None
    from get_file_from_drive_miss [where cache = cache and r = r and ev = ev and w = w, OF None] g
    have "cache1 = cache(cache_key r \<mapsto> res)" by auto
    with None show ?thesis by auto
  next
    case (Some res')
    with g show ?thesis by (simp add: get_file_from_drive_hit)
  qed
  from a show "cache1 (cache_key r) = Some res" by blast
  from a show "\<forall>k v. cache k = Some v \<longrightarrow> cache1 k = Some v" by blast
  show "\<forall>ev' r' cache2 w2.
          cache_key r' = cache_key r \<and> cache2 (cache_key r) = Some res \<longrightarrow>
          get_file_from_drive ev' r' cache2 w2 = (Inr (res, cache2), w2)"
    by (simp add: get_file_from_drive_hit)
next
  show "body_runs ev k rs cache w \<le> 1" by (rule body_runs_le_1)
next
  assume "cache k \<noteq> None"
  then show "body_runs ev k rs cache w = 0" by (rule body_runs_cached)
qed

theorem resolution_is_cached_witness:
  "fst (get_file_from_drive unreachable example_row Map.empty initial_world)
     = Inr (not_found, [cache_key example_row \<mapsto> not_found])
   \<and> get_file_from_drive offline example_row [cache_key example_row \<mapsto> not_found] initial_world
     = (Inr (not_found, [cache_key example_row \<mapsto> not_found]), initial_world)
   \<and> body_runs unreachable (cache_key example_row) [example_row, example_row, example_row]
       Map.empty initial_world \<le> 1"
proof -
  have miss: "(Map.empty :: string \<rightharpoonup> resolution) (cache_key example_row) = None" by simp
  from get_file_from_drive_miss [where cache = Map.empty and r = example_row and ev = unreachable
      and w = initial_world, OF miss]
  obtain res w' where
    g: "get_file_from_drive unreachable example_row Map.empty initial_world
          = (Inr (res, [cache_key example_row \<mapsto> res]), w')"
    and nf: "lookups_fail unreachable \<and> file_memo initial_world = Map.empty \<longrightarrow> res = not_found"
    by (elim exE conjE)
  from nf have res: "res = not_found"
    by (simp add: lookups_fail_unreachable initial_world_def)
  note inst = resolution_is_cached [of unreachable example_row Map.empty initial_world not_found
      "[cache_key example_row \<mapsto> not_found]" w' "cache_key example_row"
      "[example_row, example_row, example_row]"]
  from g res have g': "get_file_from_drive unreachable example_row Map.empty initial_world
          = (Inr (not_found, [cache_key example_row \<mapsto> not_found]), w')" by simp
  from inst g' have hit: "\<forall>ev' r' cache2 w2.
          cache_key r' = cache_key example_row \<and> cache2 (cache_key example_row) = Some not_found \<longrightarrow>
          get_file_from_drive ev' r' cache2 w2 = (Inr (not_found, cache2), w2)"
    by blast
  have second: "get_file_from_drive offline example_row [cache_key example_row \<mapsto> not_found] initial_world
     = (Inr (not_found, [cache_key example_row \<mapsto> not_found]), initial_world)"
    by (rule hit [rule_format]) simp
  from inst have runs: "body_runs unreachable (cache_key example_row) [example_row, example_row, example_row]
       Map.empty initial_world \<le> 1"
    by blast
  from g' second runs show ?thesis by simp
qed

section \<open>The descent through the base hierarchy\<close>



















section \<open>The run of the script\<close>

lemma build_drive_service_unbound: "lookup_name ''build_drive_service'' = Inl NameError"
  by (simp add: lookup_name_def module_names_def builtin_names_def)

lemma service_step_stops:
  "drive_service ss = None \<Longrightarrow>
     service_step ev inp ss w = (Stop, ss, w\<lparr>messages := messages w @ [Error ''Auth error: NameError'']\<rparr>)"
  by (simp add: service_step_def call_with_credentials_def build_drive_service_unbound say_def)

lemma main_app_stops:
  "credentials_file inp \<noteq> [] \<Longrightarrow> excel_file inp \<noteq> None \<Longrightarrow> drive_service ss = None \<Longrightarrow>
     main_app ev inp ss w = (Stop, ss, w\<lparr>messages := messages w @ [Error ''Auth error: NameError'']\<rparr>)"
  by (simp add: main_app_def service_step_stops)

lemma main_app_keeps:
  assumes "drive_service ss = None"
  shows "fst (snd (main_app ev inp ss w)) = ss
     \<and> requests (snd (snd (main_app ev inp ss w))) = requests w
     \<and> lookups (snd (snd (main_app ev inp ss w))) = lookups w
     \<and> disk (snd (snd (main_app ev inp ss w))) = disk w"
proof (cases "credentials_file inp \<noteq> [] \<and> excel_file inp \<noteq> None")
  case True
  with assms show ?thesis by (simp add: main_app_stops)
next
  case False
  then show ?thesis by (auto simp: main_app_def say_def)
qed

lemma reruns_keep:
  "drive_service ss = None \<Longrightarrow>
     fst (reruns ev inps ss w) = ss
     \<and> requests (snd (reruns ev inps ss w)) = requests w
     \<and> lookups (snd (reruns ev inps ss w)) = lookups w
     \<and> disk (snd (reruns ev inps ss w)) = disk w"
proof (induction inps arbitrary: w)
  case Nil
  show ?case by simp
next
  case (Cons inp inps)
  obtain f ss' w' where m: "main_app ev inp ss w = (f, ss', w')" by (cases "main_app ev inp ss w")
  from main_app_keeps [OF Cons.prems, of ev inp w] m
  have k: "ss' = ss" "requests w' = requests w" "lookups w' = lookups w" "disk w' = disk w" by simp_all
  from Cons.IH [OF Cons.prems, of w'] m k show ?case by simp
qed


text \<open>With a Drive client in the session the same run would load the table and
  resolve the row shown: the stop below is not built into the model of the rest.\<close>

lemma lookups_fail_accepting: "lookups_fail accepting"
  by (simp add: lookups_fail_def accepting_def unreachable_def)

lemma client_would_resolve_row:
  "\<exists>w'. main_app accepting example_inputs (initial_session\<lparr>drive_service := Some ()\<rparr>) initial_world
     = (Continue,
        initial_session\<lparr>drive_service := Some (), df := Some [example_row],
          invalid_rows_state := Some [example_row],
          file_cache := [cache_key example_row \<mapsto> not_found]\<rparr>, w')"
proof -
  have flagged: "invalid_rows [example_row] = [example_row]"
    by (simp add: invalid_rows_def invalid_mask_def placeholders_def example_row_def
        py_lower_def lower_char_def is_upper_def)
  have miss: "(Map.empty :: string \<rightharpoonup> resolution) (cache_key example_row) = None" by simp
  from get_file_from_drive_miss [where cache = Map.empty and r = example_row
      and ev = accepting and w = initial_world, OF miss]
  obtain res w' where g: "get_file_from_drive accepting example_row Map.empty initial_world
        = (Inr (res, [cache_key example_row \<mapsto> res]), w')"
    and nf: "lookups_fail accepting \<and> file_memo initial_world = Map.empty \<longrightarrow> res = not_found"
    by (elim exE conjE)
  from nf have res: "res = not_found"
    by (simp add: lookups_fail_accepting initial_world_def)
  have cols: "\<not> list_ex (\<lambda>c. c \<notin> set required_cols) required_cols"
    by (simp add: list_ex_iff)
  have "main_app accepting example_inputs (initial_session\<lparr>drive_service := Some ()\<rparr>) initial_world
     = (Continue,
        initial_session\<lparr>drive_service := Some (), df := Some [example_row],
          invalid_rows_state := Some [example_row],
          file_cache := [cache_key example_row \<mapsto> not_found]\<rparr>, w')"
    using g res cols
    by (simp add: main_app_def service_step_def load_step_def process_row_def iloc_def flagged
        example_inputs_def initial_session_def Let_def)
  then show ?thesis by blast
qed

text \<open>
  Claim C2. The name \<^verbatim>\<open>build_drive_service\<close> is bound nowhere; only
  \<^verbatim>\<open>build_drive_service_from_secrets\<close> is. The session starts without a Drive
  client, so every run that has credentials and a spreadsheet raises
  \<^verbatim>\<open>NameError\<close> when it builds the client, reports an auth error and stops,
  whatever the credentials are and whatever the library would answer. The
  session stays as it was, and in any sequence of runs no table is loaded, no row
  is resolved and no request or folder lookup is made.
\<close>

theorem main_flow_stops_at_auth_error:
  "lookup_name ''build_drive_service'' = Inl NameError
   \<and> lookup_name ''build_drive_service_from_secrets'' = Inr ''build_drive_service_from_secrets''
   \<and> drive_service initial_session = None
   \<and> (credentials_file inp \<noteq> [] \<and> excel_file inp \<noteq> None \<and> drive_service ss = None \<longrightarrow>
        main_app ev inp ss w
          = (Stop, ss, w\<lparr>messages := messages w @ [Error ''Auth error: NameError'']\<rparr>))
   \<and> (drive_service ss = None \<longrightarrow>
        fst (reruns ev inps ss w) = ss
      \<and> requests (snd (reruns ev inps ss w)) = requests w
      \<and> lookups (snd (reruns ev inps ss w)) = lookups w
      \<and> disk (snd (reruns ev inps ss w)) = disk w)"
proof (intro conjI impI)
  show "lookup_name ''build_drive_service'' = Inl NameError"
    by (rule build_drive_service_unbound)
  show "lookup_name ''build_drive_service_from_secrets'' = Inr ''build_drive_service_from_secrets''"
    by (simp add: lookup_name_def module_names_def)
  show "drive_service initial_session = None"
    by (simp add: initial_session_def)
next
  assume "credentials_file inp \<noteq> [] \<and> excel_file inp \<noteq> None \<and> drive_service ss = None"
  then show "main_app ev inp ss w
      = (Stop, ss, w\<lparr>messages := messages w @ [Error ''Auth error: NameError'']\<rparr>)"
    by (simp add: main_app_stops)
next
  assume n: "drive_service ss = None"
  from reruns_keep [OF n, of ev inps w]
  show "fst (reruns ev inps ss w) = ss" and "requests (snd (reruns ev inps ss w)) = requests w"
    and "lookups (snd (reruns ev inps ss w)) = lookups w" and "disk (snd (reruns ev inps ss w)) = disk w"
    by simp_all
qed

theorem main_flow_stops_at_auth_error_witness:
  "main_app accepting example_inputs initial_session initial_world
     = (Stop, initial_session, initial_world\<lparr>messages := [Error ''Auth error: NameError'']\<rparr>)
   \<and> reruns accepting [example_inputs, example_inputs\<lparr>clicked := Next\<rparr>] initial_session initial_world
     = (initial_session,
        initial_world\<lparr>messages := [Error ''Auth error: NameError'', Error ''Auth error: NameError'']\<rparr>)"
proof -
  have h: "credentials_file example_inputs \<noteq> [] \<and> excel_file example_inputs \<noteq> None
      \<and> drive_service initial_session = None"
    by (simp add: example_inputs_def initial_session_def)
  have h': "credentials_file (example_inputs\<lparr>clicked := Next\<rparr>) \<noteq> []
      \<and> excel_file (example_inputs\<lparr>clicked := Next\<rparr>) \<noteq> None
      \<and> drive_service initial_session = None"
    by (simp add: example_inputs_def initial_session_def)
  have one: "main_app accepting example_inputs initial_session initial_world
     = (Stop, initial_session, initial_world\<lparr>messages := messages initial_world @ [Error ''Auth error: NameError'']\<rparr>)"
    using main_flow_stops_at_auth_error [of example_inputs initial_session accepting initial_world] h
    by blast
  have two: "main_app accepting (example_inputs\<lparr>clicked := Next\<rparr>) initial_session w
     = (Stop, initial_session, w\<lparr>messages := messages w @ [Error ''Auth error: NameError'']\<rparr>)" for w
    using main_flow_stops_at_auth_error [of "example_inputs\<lparr>clicked := Next\<rparr>" initial_session accepting w] h'
    by blast
  have first: "main_app accepting example_inputs initial_session initial_world
     = (Stop, initial_session, initial_world\<lparr>messages := [Error ''Auth error: NameError'']\<rparr>)"
    using one by (simp add: initial_world_def)
  have both: "reruns accepting [example_inputs, example_inputs\<lparr>clicked := Next\<rparr>] initial_session initial_world
     = (initial_session,
        initial_world\<lparr>messages := [Error ''Auth error: NameError'', Error ''Auth error: NameError'']\<rparr>)"
    by (simp add: first two)
  from first both show ?thesis by (rule conjI)
qed

end
